theory Spec2Isabelle
  imports
    Main
    "HOL-Library.Char_ord"
    "HOL-Library.List_Lexorder"
    "HOL-Library.Product_Lexorder"
    "HOL-Library.Multiset"
    "HOL-Library.AList"
    "HOL-Library.Sublist"
begin

section \<open>Text\<close>

text \<open>
  The program is Python; its \<^verbatim>\<open>str\<close> is a sequence of code points. A text is modelled as
  a \<^typ>\<open>string\<close> in which every \<^typ>\<open>char\<close> stands for one code point between U+0000
  and U+00FF, so \<^const>\<open>length\<close>, \<^const>\<open>take\<close> and \<^const>\<open>drop\<close> count what
  \<^verbatim>\<open>len\<close> and slicing count. Texts with code points above U+00FF are outside the model.
\<close>

definition whitespace :: "char list" where
  \<comment> \<open>the code points up to U+00FF for which \<^verbatim>\<open>str.isspace\<close> holds; the class \<^verbatim>\<open>\s\<close> of
      \<^verbatim>\<open>re\<close> on \<^verbatim>\<open>str\<close> patterns is the same set\<close>
  "whitespace =
     [CHR 0x09, CHR 0x0A, CHR 0x0B, CHR 0x0C, CHR 0x0D, CHR 0x1C, CHR 0x1D, CHR 0x1E,
      CHR 0x1F, CHR 0x20, CHR 0x85, CHR 0xA0]"

definition isspace :: "char \<Rightarrow> bool" where
  "isspace c = (c \<in> set whitespace)"

definition lstrip :: "string \<Rightarrow> string" where
  "lstrip s = dropWhile isspace s"

definition rstrip :: "string \<Rightarrow> string" where
  "rstrip s = rev (dropWhile isspace (rev s))"

definition strip :: "string \<Rightarrow> string" where
  \<comment> \<open>\<^verbatim>\<open>s.strip()\<close>\<close>
  "strip s = rstrip (lstrip s)"

definition rstrip_chars :: "string \<Rightarrow> string \<Rightarrow> string" where
  \<comment> \<open>\<^verbatim>\<open>s.rstrip(cs)\<close>: every trailing character that occurs in \<open>cs\<close> goes\<close>
  "rstrip_chars cs s = rev (dropWhile (\<lambda>c. c \<in> set cs) (rev s))"

definition startswith :: "string \<Rightarrow> string \<Rightarrow> bool" where
  "startswith s p = (take (length p) s = p)"

definition endswith :: "string \<Rightarrow> string \<Rightarrow> bool" where
  "endswith s p = (length p \<le> length s \<and> drop (length s - length p) s = p)"

fun replace :: "string \<Rightarrow> string \<Rightarrow> string \<Rightarrow> string" where
  \<comment> \<open>\<^verbatim>\<open>s.replace(old, new)\<close> for a non-empty \<open>old\<close>: the occurrences are taken from the
      left and do not overlap\<close>
  "replace old new [] = []"
| "replace old new (c # cs) =
     (if old \<noteq> [] \<and> startswith (c # cs) old
      then new @ replace old new (drop (length old) (c # cs))
      else c # replace old new cs)"

definition lower_char :: "char \<Rightarrow> char" where
  \<comment> \<open>the lower-case mapping of the code points up to U+00FF: A to Z, and the capital
      letters U+00C0 to U+00DE without the multiplication sign U+00D7\<close>
  "lower_char c =
     (let n = (of_char c :: nat)
      in if (65 \<le> n \<and> n \<le> 90) \<or> (192 \<le> n \<and> n \<le> 222 \<and> n \<noteq> 215)
         then char_of (n + 32) else c)"

definition lower :: "string \<Rightarrow> string" where
  "lower s = map lower_char s"

fun join :: "string \<Rightarrow> string list \<Rightarrow> string" where
  \<comment> \<open>\<^verbatim>\<open>sep.join(xs)\<close>\<close>
  "join sep [] = []"
| "join sep [x] = x"
| "join sep (x # y # ys) = x @ sep @ join sep (y # ys)"

section \<open>The repository-reference parser\<close>

text \<open>
  \<^verbatim>\<open>extract_repo_info\<close> searches the trimmed input for the one pattern
  \<^verbatim>\<open>(?:https?://)?(?:www\.)?github\.com/([^/]+)/([^/\s?#]+)\<close>.
  The matcher below follows the pattern piece by piece, with the alternatives of the two
  optional groups tried in the order of a backtracking matcher: the longer one first.
\<close>

definition repo_char :: "char \<Rightarrow> bool" where
  \<comment> \<open>the class \<^verbatim>\<open>[^/\s?#]\<close>\<close>
  "repo_char c = (c \<noteq> CHR ''/'' \<and> \<not> isspace c \<and> c \<noteq> CHR ''?'' \<and> c \<noteq> CHR ''#'')"

definition match_segments :: "string \<Rightarrow> (string \<times> string) option" where
  \<comment> \<open>\<^verbatim>\<open>([^/]+)/([^/\s?#]+)\<close> at the start of \<open>s\<close>; both groups are greedy, and a
      shorter owner is never followed by the slash\<close>
  "match_segments s =
     (let owner = takeWhile (\<lambda>c. c \<noteq> CHR ''/'') s;
          rest = dropWhile (\<lambda>c. c \<noteq> CHR ''/'') s
      in if owner = [] then None
         else (case rest of
                 [] \<Rightarrow> None
               | _ # r \<Rightarrow>
                   (let repo = takeWhile repo_char r
                    in if repo = [] then None else Some (owner, repo))))"

definition lit :: "string \<Rightarrow> (string \<Rightarrow> 'a option) \<Rightarrow> string \<Rightarrow> 'a option" where
  \<comment> \<open>a literal piece \<open>p\<close> of a pattern, followed by the rest \<open>k\<close> of the pattern\<close>
  "lit p k s = (if startswith s p then k (drop (length p) s) else None)"

definition orelse :: "'a option \<Rightarrow> 'a option \<Rightarrow> 'a option" where
  "orelse a b = (case a of Some x \<Rightarrow> Some x | None \<Rightarrow> b)"

definition match_host :: "string \<Rightarrow> (string \<times> string) option" where
  \<comment> \<open>\<^verbatim>\<open>github\.com/([^/]+)/([^/\s?#]+)\<close> at the start of \<open>s\<close>\<close>
  "match_host s = lit ''github.com/'' match_segments s"

definition match_www :: "string \<Rightarrow> (string \<times> string) option" where
  \<comment> \<open>\<^verbatim>\<open>(?:www\.)?\<close> and what follows\<close>
  "match_www s = orelse (lit ''www.'' match_host s) (match_host s)"

definition match_pattern :: "string \<Rightarrow> (string \<times> string) option" where
  \<comment> \<open>the whole pattern at the start of \<open>s\<close>; \<^verbatim>\<open>(?:https?://)?\<close> with the \<^verbatim>\<open>s\<close>, without
      it, and skipped\<close>
  "match_pattern s =
     orelse (lit ''https://'' match_www s)
       (orelse (lit ''http://'' match_www s) (match_www s))"

fun re_search :: "string \<Rightarrow> (string \<times> string) option" where
  \<comment> \<open>\<^verbatim>\<open>re.search\<close>: the match at the leftmost position where the pattern matches\<close>
  "re_search [] = match_pattern []"
| "re_search (c # cs) = orelse (match_pattern (c # cs)) (re_search cs)"

definition extract_repo_info :: "string \<Rightarrow> string option \<times> string option" where
  "extract_repo_info github_url =
     (let github_url = rstrip_chars ''/'' (strip github_url)
      in case re_search github_url of
           Some (owner, repo) \<Rightarrow> (Some owner, Some (replace ''.git'' '''' repo))
         | None \<Rightarrow> (None, None))"

text \<open>
  Two notions for reasoning about the matcher: a text of characters at which the repository
  segment stops, and a matcher that fails on the empty text and does not see such a text
  appended to its input.
\<close>

definition stop_text :: "string \<Rightarrow> bool" where
  "stop_text t = (\<forall>c\<in>set t. \<not> repo_char c)"

definition stable :: "(string \<Rightarrow> 'a option) \<Rightarrow> bool" where
  "stable k = (k [] = None \<and> (\<forall>s t. stop_text t \<longrightarrow> k (s @ t) = k s))"

section \<open>Values of the remote services\<close>

text \<open>
  What \<^verbatim>\<open>response.json()\<close> and \<^verbatim>\<open>json.loads\<close> return: \<^verbatim>\<open>None\<close>, a truth value, a
  number, a text, a list or a dict. No function of the program computes with a number, so
  a number is kept as the numeral that denotes it. A dict is the list of its items in the
  order of insertion; the keys of a dict are distinct, and the decoder below builds every
  dict so.
\<close>

datatype json =
    JNull
  | JBool bool
  | JNumber string
  | JString string
  | JArray "json list"
  | JObject "(string \<times> json) list"

definition get :: "(string \<times> json) list \<Rightarrow> string \<Rightarrow> json \<Rightarrow> json" where
  \<comment> \<open>\<^verbatim>\<open>d.get(key, dflt)\<close>\<close>
  "get d key dflt = (case map_of d key of Some v \<Rightarrow> v | None \<Rightarrow> dflt)"

text \<open>
  A call of \<^verbatim>\<open>requests.get\<close> either raises or returns a response. Every exception that
  \<^verbatim>\<open>requests\<close> raises is a \<^verbatim>\<open>RequestException\<close>, and \<^verbatim>\<open>Timeout\<close> is the one the program
  tells from the others. \<^verbatim>\<open>response.json()\<close> raises a \<^verbatim>\<open>RequestException\<close> too when the
  body is not JSON: \<open>Inl\<close> with the text of that exception. The field \<open>body\<close> is
  \<^verbatim>\<open>response.text\<close>.
\<close>

record response =
  status_code :: int
  headers :: "string \<rightharpoonup> string"
  json :: "string + json"
  body :: string

datatype outcome =
    Timeout
  | RequestException string
  | Response response

section \<open>The directory listing\<close>

definition IGNORE_FOLDERS :: "string list" where
  "IGNORE_FOLDERS =
     [''node_modules'', ''venv'', ''.git'', ''dist'', ''build'',
      ''__pycache__'', ''.venv'', ''env'', ''.env'', ''.idea'',
      ''.vscode'', ''vendor'', ''target'', ''.gradle'', ''bin'', ''obj'']"

record entry =
  name :: string
  type :: json
  path :: json

definition ignored :: "string \<Rightarrow> bool" where
  \<comment> \<open>\<^verbatim>\<open>name.lower() in {f.lower() for f in IGNORE_FOLDERS}\<close>\<close>
  "ignored nm = (lower nm \<in> set (map lower IGNORE_FOLDERS))"

fun collect :: "json list \<Rightarrow> entry list option" where
  \<comment> \<open>the loop over the listing; \<open>None\<close> when an item raises: an item that is no dict has
      no \<^verbatim>\<open>get\<close>, a name that is no text has no \<^verbatim>\<open>lower\<close>\<close>
  "collect [] = Some []"
| "collect (item # items) =
     (case item of
        JObject d \<Rightarrow>
          (case get d ''name'' (JString '''') of
             JString nm \<Rightarrow>
               (if ignored nm then collect items
                else map_option
                       (\<lambda>structure.
                          \<lparr>name = nm, type = get d ''type'' (JString ''''),
                           path = get d ''path'' (JString nm)\<rparr> # structure)
                       (collect items))
           | _ \<Rightarrow> None)
      | _ \<Rightarrow> None)"

definition sort_rank :: "entry \<Rightarrow> nat \<times> string" where
  \<comment> \<open>\<^verbatim>\<open>lambda x: (0 if x['type'] == 'dir' else 1, x['name'].lower())\<close>\<close>
  "sort_rank x = (if type x = JString ''dir'' then 0 else 1, lower (name x))"

definition fetch_repo_structure :: "outcome \<Rightarrow> entry list" where
  \<comment> \<open>the argument is the outcome of the one request the function makes. Iterating over
      contents that are no list either raises or meets an item without \<^verbatim>\<open>get\<close>, or there
      is nothing to iterate over: the result is empty in each case\<close>
  "fetch_repo_structure got =
     (case got of
        Response response \<Rightarrow>
          (if status_code response = 200 then
             (case json response of
                Inr (JArray contents) \<Rightarrow>
                  (case collect contents of
                     Some structure \<Rightarrow> sort_key sort_rank structure
                   | None \<Rightarrow> [])
              | _ \<Rightarrow> [])
           else [])
      | _ \<Rightarrow> [])"

text \<open>
  The entry that the loop appends for an item that is a dict \<open>d\<close> with a text as its name.
\<close>

definition item_entry :: "(string \<times> json) list \<Rightarrow> entry" where
  "item_entry d =
     (case get d ''name'' (JString '''') of
        JString nm \<Rightarrow> \<lparr>name = nm, type = get d ''type'' (JString ''''), path = get d ''path'' (JString nm)\<rparr>
      | _ \<Rightarrow> \<lparr>name = [], type = JNull, path = JNull\<rparr>)"

section \<open>The remote-metadata client\<close>

text \<open>
  A function of the program returns a value or raises an exception. The third outcome
  marks an input that leaves the modelled repertoire of text; it arises in the decoder of
  JSON only, and nothing is stated about such an input.
\<close>

datatype exn = JSONDecodeError | TypeError | AttributeError | KeyError

datatype 'a result = Return 'a | Raise exn | Beyond

definition DEPENDENCY_FILES :: "string list" where
  "DEPENDENCY_FILES =
     [''requirements.txt'', ''pyproject.toml'', ''setup.py'', ''Pipfile'',
      ''package.json'', ''package-lock.json'', ''yarn.lock'',
      ''pom.xml'', ''build.gradle'', ''build.gradle.kts'',
      ''go.mod'', ''go.sum'',
      ''Cargo.toml'', ''Gemfile'', ''composer.json'',
      ''Makefile'', ''Dockerfile'', ''docker-compose.yml'', ''docker-compose.yaml'']"

text \<open>
  The requests of one call of \<^verbatim>\<open>fetch_github_data\<close>, each with its outcome: the
  repository record, the README, the root listing, the language statistics, and the raw
  file at a path on a branch.
\<close>

record remote =
  repo_got :: outcome
  readme_got :: outcome
  contents_got :: outcome
  languages_got :: outcome
  raw_got :: "string \<Rightarrow> json \<Rightarrow> outcome"

definition fetch_readme :: "(string \<Rightarrow> string option) \<Rightarrow> outcome \<Rightarrow> string option" where
  \<comment> \<open>\<open>b64decode\<close> stands for \<^verbatim>\<open>base64.b64decode(content).decode('utf-8', errors='ignore')\<close>,
      \<open>None\<close> when it raises. A body that is no dict has no \<^verbatim>\<open>get\<close>, and a content that is
      not a text either is false or makes \<^verbatim>\<open>b64decode\<close> raise: every exception ends in
      \<^verbatim>\<open>None\<close>\<close>
  "fetch_readme b64decode got =
     (case got of
        Response response \<Rightarrow>
          (if status_code response = 200 then
             (case json response of
                Inr (JObject readme_data) \<Rightarrow>
                  (let content = get readme_data ''content'' (JString '''');
                       encoding = get readme_data ''encoding'' (JString ''base64'')
                   in case content of
                        JString c \<Rightarrow>
                          (if encoding = JString ''base64'' \<and> c \<noteq> []
                           then map_option (take 8000) (b64decode c)
                           else None)
                      | _ \<Rightarrow> None)
              | _ \<Rightarrow> None)
           else None)
      | _ \<Rightarrow> None)"

fun try_branches :: "(string \<Rightarrow> outcome) \<Rightarrow> string list \<Rightarrow> string option" where
  \<comment> \<open>the inner loop of \<^verbatim>\<open>fetch_dependency_files\<close>: the first branch that answers 200 wins\<close>
  "try_branches got [] = None"
| "try_branches got (branch # branches) =
     (case got branch of
        Response response \<Rightarrow>
          (if status_code response = 200 then Some (take 4000 (body response))
           else try_branches got branches)
      | _ \<Rightarrow> try_branches got branches)"

definition fetch_dependency ::
  "(string \<Rightarrow> json \<Rightarrow> outcome) \<Rightarrow> entry \<Rightarrow> (string \<times> string) list \<Rightarrow> (string \<times> string) list"
where
  \<comment> \<open>the body of the outer loop, on the dict \<^verbatim>\<open>dependencies\<close> as it stands\<close>
  "fetch_dependency raw item dependencies =
     (if type item = JString ''file'' \<and> name item \<in> set DEPENDENCY_FILES then
        (case try_branches (\<lambda>branch. raw branch (path item)) [''main'', ''master''] of
           Some content \<Rightarrow> AList.update (name item) content dependencies
         | None \<Rightarrow> dependencies)
      else dependencies)"

fun collect_dependencies ::
  "(string \<Rightarrow> json \<Rightarrow> outcome) \<Rightarrow> entry list \<Rightarrow> (string \<times> string) list \<Rightarrow> (string \<times> string) list"
where
  "collect_dependencies raw [] dependencies = dependencies"
| "collect_dependencies raw (item # items) dependencies =
     collect_dependencies raw items (fetch_dependency raw item dependencies)"

definition fetch_dependency_files ::
  "(string \<Rightarrow> json \<Rightarrow> outcome) \<Rightarrow> entry list \<Rightarrow> (string \<times> string) list" where
  "fetch_dependency_files raw listing = collect_dependencies raw listing []"

definition fetch_languages :: "outcome \<Rightarrow> json" where
  \<comment> \<open>lines 187 to 194 of \<^verbatim>\<open>fetch_github_data\<close>\<close>
  "fetch_languages got =
     (case got of
        Response lang_response \<Rightarrow>
          (if status_code lang_response = 200 then
             (case json lang_response of Inr languages \<Rightarrow> languages | Inl _ \<Rightarrow> JObject [])
           else JObject [])
      | _ \<Rightarrow> JObject [])"

record payload =
  readme :: "string option"
  structure' :: "entry list"
  dependencies :: "(string \<times> string) list"
  languages_stats :: json
  description :: json
  language :: json
  topics :: json
  stars :: json
  forks :: json

fun digits :: "nat \<Rightarrow> string" where
  "digits n = (if n < 10 then [char_of (48 + n)] else digits (n div 10) @ [char_of (48 + n mod 10)])"

definition str_int :: "int \<Rightarrow> string" where
  \<comment> \<open>\<^verbatim>\<open>str\<close> of an integer\<close>
  "str_int i = (if i < 0 then CHR ''-'' # digits (nat (- i)) else digits (nat i))"

definition bulb :: string where
  \<comment> \<open>the light-bulb sign U+1F4A1 that opens the hint of the rate-limit message. It has no
      code point up to U+00FF, and stands here in its four bytes of UTF-8; the message is
      only passed on, never measured or cut\<close>
  "bulb = [CHR 0xF0, CHR 0x9F, CHR 0x92, CHR 0xA1]"

definition rate_limit_message :: "string \<Rightarrow> string" where
  \<comment> \<open>lines 163 to 168\<close>
  "rate_limit_message token =
     ''GitHub API rate limit exceeded.\<newline>\<newline>'' @
     (if token = []
      then bulb @ '' TIP: Add a GitHub token to your .env file to get 5000 requests/hour instead of 60.\<newline>'' @
           ''Get one at: https://github.com/settings/tokens''
      else ''Please wait a few minutes and try again.'')"

definition fetch_github_data ::
  "string \<Rightarrow> (string \<Rightarrow> string option) \<Rightarrow> remote \<Rightarrow> string \<Rightarrow> string \<Rightarrow>
     (payload option \<times> string option) result" where
  \<comment> \<open>\<open>GITHUB_TOKEN\<close> is the setting read at start-up. The function raises when the
      repository record is no dict: it has no \<^verbatim>\<open>get\<close>\<close>
  "fetch_github_data GITHUB_TOKEN b64decode net owner repo =
     (case repo_got net of
        Timeout \<Rightarrow> Return (None, Some ''Request timed out. Please try again.'')
      | RequestException e \<Rightarrow> Return (None, Some (''Network error: '' @ e))
      | Response response \<Rightarrow>
          (let remaining = (case headers response ''X-RateLimit-Remaining'' of
                              Some v \<Rightarrow> v | None \<Rightarrow> ''unknown'')
           in if status_code response = 404 then
                Return (None, Some (''Repository '' @ [CHR 0x27] @ owner @ ''/'' @ repo @ [CHR 0x27] @
                                 '' not found. Make sure it exists and is public.''))
              else if status_code response = 403 then
                (if remaining = ''0'' then Return (None, Some (rate_limit_message GITHUB_TOKEN))
                 else Return (None, Some ''Access forbidden. The repository might be private.''))
              else if status_code response \<noteq> 200 then
                Return (None, Some (''GitHub API error (Status: '' @ str_int (status_code response) @ '')''))
              else
                (case json response of
                   Inl e \<Rightarrow> Return (None, Some (''Network error: '' @ e))
                 | Inr repo_info \<Rightarrow>
                     (let readme = fetch_readme b64decode (readme_got net);
                          listing = fetch_repo_structure (contents_got net);
                          dependencies = fetch_dependency_files (raw_got net) listing;
                          languages = fetch_languages (languages_got net)
                      in case repo_info of
                           JObject d \<Rightarrow>
                             Return (Some \<lparr>readme = readme, structure' = listing,
                                        dependencies = dependencies,
                                        languages_stats = languages,
                                        description = get d ''description'' (JString ''''),
                                        language = get d ''language'' (JString ''''),
                                        topics = get d ''topics'' (JArray []),
                                        stars = get d ''stargazers_count'' (JNumber ''0''),
                                        forks = get d ''forks_count'' (JNumber ''0'')\<rparr>,
                                  None)
                         | _ \<Rightarrow> Raise AttributeError))))"




section \<open>The decoder of JSON\<close>

text \<open>
  \<^verbatim>\<open>json.loads\<close> of the standard library, as its scanner reads a text: white space is
  the four characters of JSON, a text value ends at the next quotation mark and admits
  neither a control character nor an escape other than the eight short ones and
  \<^verbatim>\<open>\uXXXX\<close>, a number is the longest numeral of the grammar, \<^verbatim>\<open>NaN\<close>, \<^verbatim>\<open>Infinity\<close>
  and \<^verbatim>\<open>-Infinity\<close> are accepted, and a key that occurs again in a dict replaces the
  value in place. An escape \<^verbatim>\<open>\uXXXX\<close> above \<^verbatim>\<open>\u00FF\<close> denotes a code point that the
  model of text does not have: the outcome is \<open>Beyond\<close>. The limits of the interpreter
  (the depth of recursion, the number of digits of an integer) are not modelled.
\<close>

definition json_ws :: "char \<Rightarrow> bool" where
  "json_ws c = (c = CHR '' '' \<or> c = CHR 0x09 \<or> c = CHR 0x0A \<or> c = CHR 0x0D)"

definition skip_ws :: "string \<Rightarrow> string" where
  "skip_ws s = dropWhile json_ws s"

definition is_digit :: "char \<Rightarrow> bool" where
  "is_digit c = (CHR ''0'' \<le> c \<and> c \<le> CHR ''9'')"

definition hexval :: "char \<Rightarrow> nat option" where
  "hexval c =
     (if CHR ''0'' \<le> c \<and> c \<le> CHR ''9'' then Some (of_char c - 48)
      else if CHR ''a'' \<le> c \<and> c \<le> CHR ''f'' then Some (of_char c - 87)
      else if CHR ''A'' \<le> c \<and> c \<le> CHR ''F'' then Some (of_char c - 55)
      else None)"

definition hex4 :: "char \<Rightarrow> char \<Rightarrow> char \<Rightarrow> char \<Rightarrow> nat option" where
  "hex4 a b c d =
     (case (hexval a, hexval b, hexval c, hexval d) of
        (Some x, Some y, Some z, Some w) \<Rightarrow> Some (((x * 16 + y) * 16 + z) * 16 + w)
      | _ \<Rightarrow> None)"

definition unescape :: "char \<Rightarrow> char option" where
  "unescape c =
     (if c = CHR 0x22 then Some (CHR 0x22)
      else if c = CHR 0x5C then Some (CHR 0x5C)
      else if c = CHR ''/'' then Some (CHR ''/'')
      else if c = CHR ''b'' then Some (CHR 0x08)
      else if c = CHR ''f'' then Some (CHR 0x0C)
      else if c = CHR ''n'' then Some (CHR 0x0A)
      else if c = CHR ''r'' then Some (CHR 0x0D)
      else if c = CHR ''t'' then Some (CHR 0x09)
      else None)"

definition cons_text :: "char \<Rightarrow> (string \<times> string) result \<Rightarrow> (string \<times> string) result" where
  "cons_text c r = (case r of Return (t, rest) \<Rightarrow> Return (c # t, rest) | Raise e \<Rightarrow> Raise e | Beyond \<Rightarrow> Beyond)"

fun scanstring :: "string \<Rightarrow> (string \<times> string) result" where
  "scanstring [] = Raise JSONDecodeError"
| "scanstring (c # cs) =
     (if c = CHR 0x22 then Return ([], cs)
      else if c = CHR 0x5C then
        (case cs of
           [] \<Rightarrow> Raise JSONDecodeError
         | esc # cs' \<Rightarrow>
             if esc = CHR ''u'' then
               (case cs' of
                  h1 # h2 # h3 # h4 # rest \<Rightarrow>
                    (case hex4 h1 h2 h3 h4 of
                       None \<Rightarrow> Raise JSONDecodeError
                     | Some n \<Rightarrow> if n < 256 then cons_text (char_of n) (scanstring rest) else Beyond)
                | _ \<Rightarrow> Raise JSONDecodeError)
             else
               (case unescape esc of
                  None \<Rightarrow> Raise JSONDecodeError
                | Some ch \<Rightarrow> cons_text ch (scanstring cs')))
      else if c < CHR 0x20 then Raise JSONDecodeError
      else cons_text c (scanstring cs))"

text \<open>
  A number is \<^verbatim>\<open>-?(0|[1-9][0-9]*)(\.[0-9]+)?([eE][-+]?[0-9]+)?\<close>, each part as long as it can
  be. Each function returns the part it read and the rest of the text.
\<close>

definition int_part :: "string \<Rightarrow> (string \<times> string) option" where
  "int_part s =
     (case s of
        [] \<Rightarrow> None
      | c # cs \<Rightarrow>
          if c = CHR ''0'' then Some ([c], cs)
          else if is_digit c then Some (c # takeWhile is_digit cs, dropWhile is_digit cs)
          else None)"

definition frac_part :: "string \<Rightarrow> string \<times> string" where
  "frac_part s =
     (case s of
        p # d # r \<Rightarrow>
          if p = CHR ''.'' \<and> is_digit d
          then (p # d # takeWhile is_digit r, dropWhile is_digit r) else ([], s)
      | _ \<Rightarrow> ([], s))"

definition exp_sign :: "string \<Rightarrow> string \<times> string" where
  "exp_sign s =
     (case s of
        g # r \<Rightarrow> if g = CHR ''+'' \<or> g = CHR ''-'' then ([g], r) else ([], s)
      | [] \<Rightarrow> ([], s))"

definition exp_part :: "string \<Rightarrow> string \<times> string" where
  "exp_part s =
     (case s of
        e # r \<Rightarrow>
          if e = CHR ''e'' \<or> e = CHR ''E'' then
            (case exp_sign r of
               (sg, r') \<Rightarrow>
                 if takeWhile is_digit r' = [] then ([], s)
                 else (e # sg @ takeWhile is_digit r', dropWhile is_digit r'))
          else ([], s)
      | [] \<Rightarrow> ([], s))"

definition match_number :: "string \<Rightarrow> (string \<times> string) option" where
  "match_number s =
     (case (case s of c # cs \<Rightarrow> if c = CHR ''-'' then ([c], cs) else ([], s) | [] \<Rightarrow> ([], s)) of
        (sign, s1) \<Rightarrow>
          (case int_part s1 of
             None \<Rightarrow> None
           | Some (intpart, s2) \<Rightarrow>
               (case frac_part s2 of
                  (frac, s3) \<Rightarrow>
                    (case exp_part s3 of
                       (expo, s4) \<Rightarrow> Some (sign @ intpart @ frac @ expo, s4)))))"

definition scan_atom :: "string \<Rightarrow> (json \<times> string) result" where
  "scan_atom s =
     (if startswith s ''null'' then Return (JNull, drop 4 s)
      else if startswith s ''true'' then Return (JBool True, drop 4 s)
      else if startswith s ''false'' then Return (JBool False, drop 5 s)
      else if startswith s ''NaN'' then Return (JNumber ''NaN'', drop 3 s)
      else if startswith s ''Infinity'' then Return (JNumber ''Infinity'', drop 8 s)
      else if startswith s ''-Infinity'' then Return (JNumber ''-Infinity'', drop 9 s)
      else (case match_number s of
              Some (lexeme, rest) \<Rightarrow> Return (JNumber lexeme, rest)
            | None \<Rightarrow> Raise JSONDecodeError))"

text \<open>
  The scanner proper. \<open>parse_array\<close> and \<open>parse_object\<close> are the loops of the scanner over
  the items of a list and of a dict, entered at the first item. Every scanned value takes
  at least one character; the two tests of the lengths state this where the loops go on,
  so that the recursion is seen to end, and never fail (\<open>scan_once_shorter\<close> below).
\<close>

lemma skip_ws_le [termination_simp]: "length (skip_ws s) \<le> length s"
  by (simp add: skip_ws_def length_dropWhile_le)

lemma cons_text_Return: "cons_text c r = Return (t, rest) \<Longrightarrow> \<exists>t'. r = Return (t', rest) \<and> t = c # t'"
  by (auto simp: cons_text_def split: result.splits)

lemma scanstring_shorter: "scanstring s = Return (t, rest) \<Longrightarrow> length rest < length s"
proof (induction s arbitrary: t rule: scanstring.induct)
  case 1 then show ?case by simp
next
  case (2 c cs)
  show ?case using "2.prems" "2.IH"
    by (auto split: if_splits list.splits option.splits dest!: cons_text_Return) fastforce+
qed

function scan_once :: "string \<Rightarrow> (json \<times> string) result"
  and parse_array :: "string \<Rightarrow> json list \<Rightarrow> (json \<times> string) result"
  and parse_object :: "string \<Rightarrow> (string \<times> json) list \<Rightarrow> (json \<times> string) result"
where
  "scan_once s =
     (case s of
        [] \<Rightarrow> Raise JSONDecodeError
      | c # cs \<Rightarrow>
          if c = CHR 0x22 then
            (case scanstring cs of
               Return (t, rest) \<Rightarrow> Return (JString t, rest)
             | Raise e \<Rightarrow> Raise e
             | Beyond \<Rightarrow> Beyond)
          else if c = CHR ''{'' then
            (case skip_ws cs of
               [] \<Rightarrow> Raise JSONDecodeError
             | d # rest \<Rightarrow> if d = CHR ''}'' then Return (JObject [], rest) else parse_object (skip_ws cs) [])
          else if c = CHR ''['' then
            (case skip_ws cs of
               [] \<Rightarrow> Raise JSONDecodeError
             | d # rest \<Rightarrow> if d = CHR '']'' then Return (JArray [], rest) else parse_array (skip_ws cs) [])
          else scan_atom s)"
| "parse_array s items =
     (case scan_once s of
        Return (item, rest) \<Rightarrow>
          if length rest < length s then
            (case skip_ws rest of
               [] \<Rightarrow> Raise JSONDecodeError
             | d # r \<Rightarrow>
                 if d = CHR '']'' then Return (JArray (items @ [item]), r)
                 else if d = CHR '','' then parse_array (skip_ws r) (items @ [item])
                 else Raise JSONDecodeError)
          else Raise JSONDecodeError
      | Raise e \<Rightarrow> Raise e
      | Beyond \<Rightarrow> Beyond)"
| "parse_object s pairs =
     (case s of
        [] \<Rightarrow> Raise JSONDecodeError
      | q # cs \<Rightarrow>
          if q \<noteq> CHR 0x22 then Raise JSONDecodeError
          else
            (case scanstring cs of
               Return (key, rest) \<Rightarrow>
                 (case skip_ws rest of
                    [] \<Rightarrow> Raise JSONDecodeError
                  | colon # r \<Rightarrow>
                      if colon \<noteq> CHR '':'' then Raise JSONDecodeError
                      else
                        (case scan_once (skip_ws r) of
                           Return (item, rest') \<Rightarrow>
                             if length rest' < length (skip_ws r) then
                               (case skip_ws rest' of
                                  [] \<Rightarrow> Raise JSONDecodeError
                                | d # r' \<Rightarrow>
                                    if d = CHR ''}'' then Return (JObject (AList.update key item pairs), r')
                                    else if d = CHR '','' then
                                      parse_object (skip_ws r') (AList.update key item pairs)
                                    else Raise JSONDecodeError)
                             else Raise JSONDecodeError
                         | Raise e \<Rightarrow> Raise e
                         | Beyond \<Rightarrow> Beyond))
             | Raise e \<Rightarrow> Raise e
             | Beyond \<Rightarrow> Beyond))"
  by pat_completeness auto
termination
proof (relation "measure (\<lambda>x. case x of
          Inl s \<Rightarrow> 2 * length s
        | Inr (Inl (s, items)) \<Rightarrow> 2 * length s + 1
        | Inr (Inr (s, pairs)) \<Rightarrow> 2 * length s + 1)", goal_cases)
  case 1 show ?case by simp
next
  case (2 s c cs d rest)
  then show ?case using skip_ws_le[of cs] by simp
next
  case (3 s c cs d rest)
  then show ?case using skip_ws_le[of cs] by simp
next
  case (4 s items) then show ?case by simp
next
  case (5 s items x item rest d r)
  then show ?case using skip_ws_le[of r] skip_ws_le[of rest] by simp
next
  case (6 s pairs q cs x key rest colon r)
  then show ?case using skip_ws_le[of r] skip_ws_le[of rest] scanstring_shorter[of cs key rest]
    by simp
next
  case (7 s pairs q cs x key rest colon r y item rest' d r')
  then show ?case using skip_ws_le[of r] skip_ws_le[of rest] skip_ws_le[of rest'] skip_ws_le[of r'] scanstring_shorter[of cs key rest]
    by simp
qed

definition loads :: "string \<Rightarrow> json result" where
  \<comment> \<open>\<^verbatim>\<open>json.loads\<close>: one value, with white space before and after it and nothing else\<close>
  "loads s =
     (case scan_once (skip_ws s) of
        Return (obj, rest) \<Rightarrow> if skip_ws rest = [] then Return obj else Raise JSONDecodeError
      | Raise e \<Rightarrow> Raise e
      | Beyond \<Rightarrow> Beyond)"

section \<open>The response normalizer\<close>

definition default_keys :: "string list" where
  "default_keys =
     [''tech_stack'', ''project_type'', ''architecture_mermaid'',
      ''architecture_description'', ''what_it_does'', ''recruiter_summary'']"

definition strip_fences :: "string \<Rightarrow> string" where
  \<comment> \<open>lines 314 to 322: the text that \<^verbatim>\<open>json.loads\<close> is given\<close>
  "strip_fences analysis_text =
     (let cleaned_text = strip analysis_text;
          cleaned_text =
            (if startswith cleaned_text ''```json'' then drop 7 cleaned_text else cleaned_text);
          cleaned_text =
            (if startswith cleaned_text ''```'' then drop 3 cleaned_text else cleaned_text);
          cleaned_text =
            (if endswith cleaned_text ''```'' then take (length cleaned_text - 3) cleaned_text
             else cleaned_text)
      in strip cleaned_text)"

definition fill_default :: "string \<Rightarrow> (string \<times> json) list \<Rightarrow> (string \<times> json) list" where
  \<comment> \<open>the body of the loop over \<^verbatim>\<open>default_keys\<close>\<close>
  "fill_default key data =
     (if map_of data key = None then
        (if key = ''architecture_mermaid'' then AList.update key (JString '''') data
         else AList.update key (JString ''Not available'') data)
      else data)"

definition repair_diagram :: "(string \<times> json) list \<Rightarrow> (string \<times> json) list result" where
  \<comment> \<open>lines 336 to 347; a value that is not a text has no \<^verbatim>\<open>replace\<close>\<close>
  "repair_diagram data =
     (case map_of data ''architecture_mermaid'' of
        None \<Rightarrow> Return data
      | Some (JString mermaid_code) \<Rightarrow>
          (let mermaid_code = replace ''```'' '''' (replace ''```mermaid'' '''' mermaid_code);
               mermaid_code = strip mermaid_code;
               mermaid_code =
                 (if mermaid_code \<noteq> [] \<and> \<not> startswith mermaid_code ''graph''
                  then ''graph TD;\<newline>'' @ mermaid_code else mermaid_code);
               data = AList.update ''architecture_mermaid'' (JString mermaid_code) data
           in Return
                (if lower mermaid_code = ''not available''
                 then AList.update ''architecture_mermaid'' (JString '''') data
                 else data))
      | Some _ \<Rightarrow> Raise AttributeError)"

fun texts :: "json list \<Rightarrow> string list option" where
  \<comment> \<open>the items of a list when each of them is a text, as \<^verbatim>\<open>join\<close> requires\<close>
  "texts [] = Some []"
| "texts (JString t # items) = map_option ((#) t) (texts items)"
| "texts (_ # items) = None"

definition join_tech_stack :: "(string \<times> json) list \<Rightarrow> (string \<times> json) list result" where
  \<comment> \<open>lines 349 and 350\<close>
  "join_tech_stack data =
     (case map_of data ''tech_stack'' of
        None \<Rightarrow> Raise KeyError
      | Some (JArray items) \<Rightarrow>
          (case texts items of
             Some ts \<Rightarrow> Return (AList.update ''tech_stack'' (JString (join '', '' ts)) data)
           | None \<Rightarrow> Raise TypeError)
      | Some _ \<Rightarrow> Return data)"

definition normalize_dict :: "(string \<times> json) list \<Rightarrow> (string \<times> json) list result" where
  \<comment> \<open>lines 324 to 352, on a dict\<close>
  "normalize_dict data =
     (case repair_diagram (fold fill_default default_keys data) of
        Return data \<Rightarrow> join_tech_stack data
      | Raise e \<Rightarrow> Raise e
      | Beyond \<Rightarrow> Beyond)"

definition parse_failure :: "string \<Rightarrow> (string \<times> json) list" where
  \<comment> \<open>the dict of the handler of \<^verbatim>\<open>json.JSONDecodeError\<close>\<close>
  "parse_failure analysis_text =
     [(''tech_stack'', JString ''Error parsing analysis''),
      (''project_type'', JString ''Error parsing analysis''),
      (''architecture_mermaid'', JString ''''),
      (''architecture_description'', JString ''Error parsing analysis''),
      (''what_it_does'', JString ''Error parsing analysis''),
      (''recruiter_summary'',
         JString (''Error parsing analysis: '' @ take 100 analysis_text @ ''...''))]"

definition parse_analysis :: "string \<Rightarrow> (string \<times> json) list result" where
  \<comment> \<open>Decoded data that are no dict raise \<^verbatim>\<open>TypeError\<close>: a number, a truth value and
      \<^verbatim>\<open>None\<close> at the membership test of the loop; a list or a text at the first assignment
      of a default or, when all six keys occur in it, at the subscript of line 337. Only
      \<^verbatim>\<open>json.JSONDecodeError\<close> is handled\<close>
  "parse_analysis analysis_text =
     (case loads (strip_fences analysis_text) of
        Return (JObject data) \<Rightarrow> normalize_dict data
      | Return _ \<Rightarrow> Raise TypeError
      | Raise JSONDecodeError \<Rightarrow> Return (parse_failure analysis_text)
      | Raise e \<Rightarrow> Raise e
      | Beyond \<Rightarrow> Beyond)"

text \<open>
  For the claims on the normalizer: a scanner reads the text \<open>s\<close> down to \<open>rest\<close> when it
  takes at least one character and the last one it takes is no backquote; the default that
  the loop over \<^verbatim>\<open>default_keys\<close> stores for a key; and the diagram text that lines 338 to
  347 leave in the dict for the text they find there.
\<close>

definition reads :: "string \<Rightarrow> string \<Rightarrow> bool" where
  "reads s rest = (\<exists>u. s = u @ rest \<and> u \<noteq> [] \<and> last u \<noteq> CHR 0x60)"

definition dflt :: "string \<Rightarrow> json" where
  "dflt key = JString (if key = ''architecture_mermaid'' then [] else ''Not available'')"

definition repaired :: "string \<Rightarrow> string" where
  "repaired mermaid_code =
     (let m = strip (replace ''```'' [] (replace ''```mermaid'' [] mermaid_code));
          m = (if m \<noteq> [] \<and> \<not> startswith m ''graph'' then ''graph TD;\<newline>'' @ m else m)
      in if lower m = ''not available'' then [] else m)"

section \<open>Properties of the repository-reference parser\<close>

subsection \<open>Trimming does not change the match\<close>

lemma takeWhile_stop: "\<forall>c\<in>set t. \<not> P c \<Longrightarrow> takeWhile P (r @ t) = takeWhile P r"
  by (induction r) (auto simp: takeWhile_eq_Nil_iff)

lemma stop_text_drop: "stop_text t \<Longrightarrow> stop_text (drop n t)"
  by (auto simp: stop_text_def dest: in_set_dropD)

lemma match_segments_stop: "stop_text t \<Longrightarrow> match_segments t = None"
proof -
  assume t: "stop_text t"
  have "takeWhile repo_char r = []" if "dropWhile (\<lambda>c. c \<noteq> CHR ''/'') t = x # r" for x r
  proof -
    have "set r \<subseteq> set t" using that set_dropWhileD[of _ "\<lambda>c. c \<noteq> CHR ''/''" t] by auto
    then show ?thesis using t by (cases r) (auto simp: stop_text_def)
  qed
  then show ?thesis by (auto simp: match_segments_def Let_def split: list.splits)
qed

lemma match_segments_append:
  assumes "stop_text t" shows "match_segments (s @ t) = match_segments s"
proof (cases "CHR ''/'' \<in> set s")
  case True
  then have a: "takeWhile (\<lambda>c. c \<noteq> CHR ''/'') (s @ t) = takeWhile (\<lambda>c. c \<noteq> CHR ''/'') s"
    and b: "dropWhile (\<lambda>c. c \<noteq> CHR ''/'') (s @ t) = dropWhile (\<lambda>c. c \<noteq> CHR ''/'') s @ t"
    by (auto simp: takeWhile_append1 dropWhile_append1)
  from True have "dropWhile (\<lambda>c. c \<noteq> CHR ''/'') s \<noteq> []" by (auto simp: dropWhile_eq_Nil_conv)
  then obtain x r where r: "dropWhile (\<lambda>c. c \<noteq> CHR ''/'') s = x # r" by (cases "dropWhile (\<lambda>c. c \<noteq> CHR ''/'') s") auto
  have "takeWhile repo_char (r @ t) = takeWhile repo_char r"
    using assms by (intro takeWhile_stop) (auto simp: stop_text_def)
  then show ?thesis by (simp add: match_segments_def Let_def a b r)
next
  case False
  then have d: "dropWhile (\<lambda>c. c \<noteq> CHR ''/'') s = []" by (auto simp: dropWhile_eq_Nil_conv)
  have s: "match_segments s = None"
    unfolding match_segments_def Let_def d by simp
  from False have ns: "x \<noteq> CHR ''/''" if "x \<in> set s" for x using that by auto
  have a: "takeWhile (\<lambda>c. c \<noteq> CHR ''/'') (s @ t) = s @ takeWhile (\<lambda>c. c \<noteq> CHR ''/'') t"
    by (rule takeWhile_append2) (rule ns)
  have b: "dropWhile (\<lambda>c. c \<noteq> CHR ''/'') (s @ t) = dropWhile (\<lambda>c. c \<noteq> CHR ''/'') t"
    by (rule dropWhile_append2) (rule ns)
  have "takeWhile repo_char r = []" if "dropWhile (\<lambda>c. c \<noteq> CHR ''/'') t = x # r" for x r
  proof -
    have "set r \<subseteq> set t" using that set_dropWhileD[of _ "\<lambda>c. c \<noteq> CHR ''/''" t] by auto
    then show ?thesis using assms by (cases r) (auto simp: stop_text_def)
  qed
  then have "match_segments (s @ t) = None"
    by (auto simp: match_segments_def Let_def a b split: list.splits)
  with s show ?thesis by simp
qed

lemma stable_segments: "stable match_segments"
  by (simp add: stable_def match_segments_append) (simp add: match_segments_def)

lemma stable_lit:
  assumes "stable k" "p \<noteq> []" shows "stable (lit p k)"
  unfolding stable_def
proof (intro conjI allI impI)
  show "lit p k [] = None" using assms by (auto simp: lit_def startswith_def)
next
  fix s t :: string assume t: "stop_text t"
  show "lit p k (s @ t) = lit p k s"
  proof (cases "length p \<le> length s")
    case True
    then show ?thesis using assms t by (simp add: lit_def startswith_def stable_def)
  next
    case False
    then have n: "lit p k s = None" by (auto simp: lit_def startswith_def)
    from False have "drop (length p) (s @ t) = drop (length p - length s) t" by simp
    moreover have "k (drop (length p - length s) t) = None"
      using assms(1) stop_text_drop[OF t, of "length p - length s"]
      unfolding stable_def by (metis append_Nil)
    ultimately show ?thesis using n by (simp add: lit_def)
  qed
qed

lemma stable_orelse: "stable f \<Longrightarrow> stable g \<Longrightarrow> stable (\<lambda>s. orelse (f s) (g s))"
  by (auto simp: stable_def orelse_def split: option.splits)

lemma stable_pattern: "stable match_pattern"
proof -
  have h: "stable match_host" unfolding match_host_def[abs_def] by (rule stable_lit[OF stable_segments]) simp
  have w: "stable match_www" unfolding match_www_def[abs_def]
    by (intro stable_orelse stable_lit h) simp
  show ?thesis unfolding match_pattern_def[abs_def]
    by (intro stable_orelse stable_lit w) simp_all
qed

lemma re_search_stop: "stop_text t \<Longrightarrow> re_search t = None"
proof (induction t)
  case Nil show ?case using stable_pattern by (simp add: stable_def)
next
  case (Cons c t)
  have "match_pattern ([] @ (c # t)) = match_pattern []"
    using stable_pattern Cons.prems unfolding stable_def by blast
  then have "match_pattern (c # t) = None" using stable_pattern by (simp add: stable_def)
  moreover have "re_search t = None" using Cons by (simp add: stop_text_def)
  ultimately show ?case by (simp add: orelse_def)
qed

lemma re_search_append_stop: "stop_text t \<Longrightarrow> re_search (s @ t) = re_search s"
proof (induction s)
  case Nil then show ?case using re_search_stop stable_pattern by (simp add: stable_def)
next
  case (Cons c s)
  have "match_pattern ((c # s) @ t) = match_pattern (c # s)"
    using stable_pattern Cons.prems unfolding stable_def by blast
  then show ?case using Cons by simp
qed

lemma lit_Some: "lit p k s = Some r \<longleftrightarrow> (\<exists>s'. s = p @ s' \<and> k s' = Some r)"
  by (auto simp: lit_def startswith_def) (metis append_take_drop_id)

lemma orelse_Some: "orelse a b = Some r \<longleftrightarrow> a = Some r \<or> (a = None \<and> b = Some r)"
  by (cases a) (simp_all add: orelse_def)

lemma match_www_Some:
  assumes "match_www s = Some r"
  obtains p s' where "s = p @ s'" "match_host s' = Some r" "p \<in> {[], ''www.''}"
proof -
  from assms consider "lit ''www.'' match_host s = Some r" | "match_host s = Some r"
    by (auto simp: match_www_def orelse_Some)
  then show ?thesis
  proof cases
    case 1
    then obtain s' where "s = ''www.'' @ s'" "match_host s' = Some r" unfolding lit_Some by blast
    then show ?thesis using that[of "''www.''" s'] by simp
  next
    case 2
    then show ?thesis using that[of "[]" s] by simp
  qed
qed

lemma match_pattern_Some:
  assumes "match_pattern s = Some r"
  obtains p s' where "s = p @ s'" "match_host s' = Some r"
    "p \<in> {[], ''www.'', ''http://'', ''http://www.'', ''https://'', ''https://www.''}"
proof -
  from assms consider "lit ''https://'' match_www s = Some r"
    | "lit ''http://'' match_www s = Some r" | "match_www s = Some r"
    by (auto simp: match_pattern_def orelse_Some)
  then show ?thesis
  proof cases
    case 1
    then obtain t where t: "s = ''https://'' @ t" "match_www t = Some r" unfolding lit_Some by blast
    from t(2) obtain p s' where "t = p @ s'" "match_host s' = Some r" "p \<in> {[], ''www.''}"
      by (rule match_www_Some)
    then show ?thesis using that[of "''https://'' @ p" s'] t(1) by auto
  next
    case 2
    then obtain t where t: "s = ''http://'' @ t" "match_www t = Some r" unfolding lit_Some by blast
    from t(2) obtain p s' where "t = p @ s'" "match_host s' = Some r" "p \<in> {[], ''www.''}"
      by (rule match_www_Some)
    then show ?thesis using that[of "''http://'' @ p" s'] t(1) by auto
  next
    case 3
    then obtain p s' where "s = p @ s'" "match_host s' = Some r" "p \<in> {[], ''www.''}"
      by (rule match_www_Some)
    then show ?thesis using that[of p s'] by auto
  qed
qed

lemma match_host_hd: "match_host s = Some r \<Longrightarrow> \<exists>s'. s = CHR ''g'' # s'"
  by (auto simp: match_host_def lit_Some)

lemma lit_hd: "p \<noteq> [] \<Longrightarrow> hd p \<noteq> c \<Longrightarrow> lit p k (c # cs) = None"
  by (cases p) (auto simp: lit_def startswith_def)

lemma match_host_pattern:
  assumes "match_host s = Some r" shows "match_pattern s = Some r"
proof -
  from assms obtain s' where "s = CHR ''g'' # s'" by (auto dest: match_host_hd)
  then show ?thesis using assms by (simp add: match_pattern_def match_www_def lit_hd orelse_def)
qed

lemma match_pattern_hd:
  "match_pattern (c # cs) = Some r \<Longrightarrow> c = CHR ''g'' \<or> c = CHR ''w'' \<or> c = CHR ''h''"
  by (erule match_pattern_Some) (auto dest!: match_host_hd)

lemma re_search_lstrip: "re_search (lstrip s) = re_search s"
proof (induction s)
  case Nil show ?case by (simp add: lstrip_def)
next
  case (Cons c s)
  show ?case
  proof (cases "isspace c")
    case True
    then have "match_pattern (c # s) = None"
      using match_pattern_hd[of c s] by (cases "match_pattern (c # s)") (auto simp: isspace_def whitespace_def)
    then show ?thesis using True Cons by (simp add: lstrip_def orelse_def)
  next
    case False then show ?thesis by (simp add: lstrip_def)
  qed
qed

lemma rev_dropWhile_rev: "\<exists>t. s = rev (dropWhile P (rev s)) @ t \<and> (\<forall>c\<in>set t. P c)"
proof -
  have "rev s = takeWhile P (rev s) @ dropWhile P (rev s)" by simp
  then have "s = rev (dropWhile P (rev s)) @ rev (takeWhile P (rev s))"
    by (metis rev_append rev_rev_ident)
  moreover have "\<forall>c\<in>set (rev (takeWhile P (rev s))). P c" by (auto dest: set_takeWhileD)
  ultimately show ?thesis by blast
qed

lemma re_search_trim: "re_search (rstrip_chars ''/'' (strip s)) = re_search s"
proof -
  obtain t1 where t1: "lstrip s = rstrip (lstrip s) @ t1" "\<forall>c\<in>set t1. isspace c"
    using rev_dropWhile_rev[of "lstrip s" isspace] by (auto simp: rstrip_def)
  obtain t2 where t2: "strip s = rstrip_chars ''/'' (strip s) @ t2" "\<forall>c\<in>set t2. c \<in> set ''/''"
    using rev_dropWhile_rev[of "strip s" "\<lambda>c. c \<in> set ''/''"] by (auto simp: rstrip_chars_def)
  have "re_search (rstrip_chars ''/'' (strip s)) = re_search (strip s)"
    using re_search_append_stop[of t2 "rstrip_chars ''/'' (strip s)"] t2
    by (simp add: stop_text_def repo_char_def)
  also have "\<dots> = re_search (lstrip s)"
    using re_search_append_stop[of t1 "strip s"] t1
    by (simp add: stop_text_def repo_char_def strip_def)
  finally show ?thesis by (simp add: re_search_lstrip)
qed

lemma extract_repo_info_search:
  "extract_repo_info url =
     (case re_search url of
        Some (owner, repo) \<Rightarrow> (Some owner, Some (replace ''.git'' '''' repo))
      | None \<Rightarrow> (None, None))"
  by (simp add: extract_repo_info_def re_search_trim)

lemma match_host_here:
  assumes "owner \<noteq> []" "CHR ''/'' \<notin> set owner" "repo \<noteq> []" "\<forall>c\<in>set repo. repo_char c"
    "post = [] \<or> \<not> repo_char (hd post)"
  shows "match_host (''github.com/'' @ owner @ ''/'' @ repo @ post) = Some (owner, repo)"
proof -
  have a: "takeWhile (\<lambda>c. c \<noteq> CHR ''/'') (owner @ CHR ''/'' # repo @ post) = owner"
    using assms(2) by (induction owner) auto
  have b: "dropWhile (\<lambda>c. c \<noteq> CHR ''/'') (owner @ CHR ''/'' # repo @ post) = CHR ''/'' # repo @ post"
    using assms(2) by (induction owner) auto
  have c: "takeWhile repo_char (repo @ post) = repo"
    using assms(4,5) by (induction repo) (auto simp: takeWhile_eq_Nil_iff)
  show ?thesis
    using assms(1,3) by (simp add: match_host_def lit_def startswith_def match_segments_def a b c)
qed

lemma match_host_before:
  assumes "CHR ''g'' \<notin> set p" "j < length p" shows "match_host (drop j (p @ s)) = None"
proof -
  from assms(2) have "drop j p \<noteq> []" by simp
  then obtain c cs where c: "drop j p = c # cs" by (cases "drop j p") auto
  then have "c \<in> set p" by (metis in_set_dropD list.set_intros(1))
  then have "c \<noteq> CHR ''g''" using assms(1) by auto
  then show ?thesis using c assms(2) match_host_hd[of "drop j (p @ s)"]
    by (cases "match_host (drop j (p @ s))") auto
qed

lemma re_search_first:
  assumes "match_host x = Some r" "\<forall>i<length pre. match_host (drop i (pre @ x)) = None"
  shows "re_search (pre @ x) = Some r"
  using assms
proof (induction pre)
  case Nil
  then obtain c cs where "x = c # cs" by (auto dest!: match_host_hd)
  then show ?case using Nil by (simp add: match_host_pattern orelse_def)
next
  case (Cons c pre)
  have "\<forall>i<length pre. match_host (drop i (pre @ x)) = None"
  proof (intro allI impI)
    fix i assume "i < length pre"
    then show "match_host (drop i (pre @ x)) = None" using Cons.prems(2)[rule_format, of "Suc i"] by simp
  qed
  then have tl: "re_search (pre @ x) = Some r" using Cons by blast
  show ?case
  proof (cases "match_pattern (c # pre @ x)")
    case None then show ?thesis using tl by (simp add: orelse_def)
  next
    case (Some r')
    then obtain p s' where p: "c # pre @ x = p @ s'" "match_host s' = Some r'"
      "p \<in> {[], ''www.'', ''http://'', ''http://www.'', ''https://'', ''https://www.''}"
      by (rule match_pattern_Some)
    then have g: "CHR ''g'' \<notin> set p" by auto
    have le: "length p \<le> Suc (length pre)"
    proof (rule ccontr)
      assume "\<not> length p \<le> Suc (length pre)"
      then have "match_host (drop (Suc (length pre)) (p @ s')) = None"
        using match_host_before[OF g] by simp
      then show False using p(1)[symmetric] Cons.prems(1) by simp
    qed
    have "\<not> length p < Suc (length pre)"
    proof
      assume "length p < Suc (length pre)"
      then have "match_host (drop (length p) ((c # pre) @ x)) = None" using Cons.prems(2) by simp
      then show False using p by simp
    qed
    with le have "length p = Suc (length pre)" by simp
    then have "s' = x" using p(1) by (metis append_Cons append_eq_append_conv length_Cons)
    then have "r' = r" using p(2) Cons.prems(1) by simp
    then show ?thesis using Some by (simp add: orelse_def)
  qed
qed

lemma all_less_upt: "(\<forall>i<n. P i) \<longleftrightarrow> list_all P [0..<n]"
  by (auto simp: list_all_iff)

text \<open>
  The pattern is searched for, not anchored: when the input holds
  \<^verbatim>\<open>github.com/<owner>/<repo>\<close> anywhere, after any text \<open>pre\<close> and before any text
  \<open>post\<close>, and no earlier position of the input starts such an occurrence, the search
  finds that owner and that repository segment, and the parser returns the owner and the
  segment passed through \<^verbatim>\<open>replace('.git', '')\<close>. Here \<open>owner\<close> is a non-empty run without a
  slash and \<open>repo\<close> is the whole non-empty run of characters of \<^verbatim>\<open>[^/\s?#]\<close> after the
  slash. A segment in which \<^verbatim>\<open>.git\<close> does not occur is returned as it stands.
\<close>

lemma extract_repo_info_first_occurrence:
  assumes "url = pre @ ''github.com/'' @ owner @ ''/'' @ repo @ post"
    and "owner \<noteq> []" and "CHR ''/'' \<notin> set owner"
    and "repo \<noteq> []" and "\<forall>c\<in>set repo. repo_char c" and "post = [] \<or> \<not> repo_char (hd post)"
    and "\<forall>i<length pre. match_host (drop i url) = None"
  shows "re_search (rstrip_chars ''/'' (strip url)) = Some (owner, repo)"
    and "extract_repo_info url = (Some owner, Some (replace ''.git'' '''' repo))"
proof -
  have "match_host (''github.com/'' @ owner @ ''/'' @ repo @ post) = Some (owner, repo)"
    using assms(2-6) by (rule match_host_here)
  then have s: "re_search url = Some (owner, repo)"
    unfolding assms(1) using assms(7) unfolding assms(1) by (rule re_search_first)
  then show "re_search (rstrip_chars ''/'' (strip url)) = Some (owner, repo)"
    by (simp add: re_search_trim)
  from s show "extract_repo_info url = (Some owner, Some (replace ''.git'' '''' repo))"
    by (simp add: extract_repo_info_search)
qed

lemma extract_repo_info_first_occurrence_example:
  "extract_repo_info ''see https://github.com/octo/demo.git?tab=readme for more'' =
     (Some ''octo'', Some ''demo'')"
  using extract_repo_info_first_occurrence(2) [of
      "''see https://github.com/octo/demo.git?tab=readme for more''"
      "''see https://''" "''octo''" "''demo.git''" "''?tab=readme for more''"]
  by (simp add: all_less_upt upt_rec match_host_def lit_def startswith_def repo_char_def
      isspace_def whitespace_def)

lemma replace_absent:
  assumes "\<forall>i<length s. \<not> startswith (drop i s) old"
  shows "replace old new s = s"
  using assms
proof (induction s)
  case Nil then show ?case by simp
next
  case (Cons c cs)
  from Cons.prems[rule_format, of 0] have n: "\<not> startswith (c # cs) old" by simp
  have "\<forall>i<length cs. \<not> startswith (drop i cs) old"
  proof (intro allI impI)
    fix i assume "i < length cs"
    then show "\<not> startswith (drop i cs) old" using Cons.prems[rule_format, of "Suc i"] by simp
  qed
  then have "replace old new cs = cs" by (rule Cons.IH)
  then show ?case using n by simp
qed

lemma startswith_occurs: "startswith (drop i s) p \<Longrightarrow> s = take i s @ p @ drop (i + length p) s"
  unfolding startswith_def
  by (metis add.commute append_take_drop_id drop_drop)

lemma replace_no_occurrence:
  assumes "\<forall>a b. s \<noteq> a @ old @ b"
  shows "replace old new s = s"
  using assms startswith_occurs[of _ s old] by (intro replace_absent) blast

lemma extract_repo_info_plain:
  assumes "url = pre @ ''github.com/'' @ owner @ ''/'' @ repo @ post"
    and "owner \<noteq> []" and "CHR ''/'' \<notin> set owner"
    and "repo \<noteq> []" and "\<forall>c\<in>set repo. repo_char c" and "post = [] \<or> \<not> repo_char (hd post)"
    and "\<forall>i<length pre. match_host (drop i url) = None"
    and "\<forall>a b. repo \<noteq> a @ ''.git'' @ b"
  shows "extract_repo_info url = (Some owner, Some repo)"
proof -
  have "replace ''.git'' '''' repo = repo" using assms(8) by (rule replace_no_occurrence)
  then show ?thesis using extract_repo_info_first_occurrence(2)[OF assms(1-7)] by simp
qed

subsection \<open>The claims on the parser\<close>

text \<open>
  C2. The parser is to return the repository segment with only a trailing \<^verbatim>\<open>.git\<close>
  removed, an inner \<^verbatim>\<open>.git\<close> as in \<^verbatim>\<open>foo.github.io\<close> being kept. The code calls
  \<^verbatim>\<open>replace('.git', '')\<close>, which removes every occurrence: for the address of the
  repository \<^verbatim>\<open>foo.github.io\<close> of \<^verbatim>\<open>user\<close> it returns the repository name
  \<^verbatim>\<open>foohub.io\<close>.
\<close>

theorem extract_repo_info_inner_git:
  "extract_repo_info ''https://github.com/user/foo.github.io'' = (Some ''user'', Some ''foohub.io'')"
  by (simp add: extract_repo_info_def strip_def lstrip_def rstrip_def rstrip_chars_def
      isspace_def whitespace_def match_pattern_def match_www_def match_host_def lit_def
      match_segments_def orelse_def startswith_def repo_char_def)

text \<open>
  C10. The parser is to return the owner and the repository of the first occurrence of
  \<^verbatim>\<open>github.com/<owner>/<repo>\<close> anywhere inside the input. The search is not anchored and
  finds the occurrence, but the repository segment then loses every \<^verbatim>\<open>.git\<close> it holds,
  the defect of C2: for a sentence that holds the address of the repository
  \<^verbatim>\<open>foo.github.io\<close> of \<^verbatim>\<open>user\<close> the parser returns the repository name \<^verbatim>\<open>foohub.io\<close>,
  and for an occurrence whose repository segment is \<^verbatim>\<open>.git\<close> it returns the empty text,
  which the caller takes for an absent repository.
\<close>

theorem extract_repo_info_interior_git:
  "extract_repo_info ''see https://github.com/user/foo.github.io now'' =
     (Some ''user'', Some ''foohub.io'') \<and>
   extract_repo_info ''visit github.com/a/.git'' = (Some ''a'', Some [])"
  by code_simp

section \<open>Properties of the directory listing\<close>

lemma collect_not_ignored: "collect items = Some kept \<Longrightarrow> e \<in> set kept \<Longrightarrow> \<not> ignored (name e)"
proof (induction items arbitrary: kept)
  case Nil then show ?case by simp
next
  case (Cons item items)
  then show ?case
    by (auto split: json.splits if_splits)
qed

lemma collect_dicts:
  "\<forall>d\<in>set ds. \<exists>nm. get d ''name'' (JString '''') = JString nm \<Longrightarrow>
   collect (map JObject ds) = Some (filter (\<lambda>e. \<not> ignored (name e)) (map item_entry ds))"
  by (induction ds) (auto simp: item_entry_def)

lemma sort_rank_le:
  "sort_rank a \<le> sort_rank b \<longleftrightarrow>
     (type a = JString ''dir'' \<and> type b \<noteq> JString ''dir'') \<or>
     ((type a = JString ''dir'') = (type b = JString ''dir'') \<and> lower (name a) \<le> lower (name b))"
  by (auto simp: sort_rank_def less_eq_prod_def)

lemma structure_cases:
  "fetch_repo_structure got = [] \<or>
   (\<exists>contents kept. collect contents = Some kept \<and>
      fetch_repo_structure got = sort_key sort_rank kept)"
  by (auto simp: fetch_repo_structure_def split: outcome.splits sum.splits json.splits option.splits)

text \<open>
  C6. Whatever the request for the listing comes to, no entry of the returned listing has a
  name that equals a name of the ignore-set once both are lower-cased; an entry that is a
  directory never comes after one that is not; and of two entries that are both directories
  or both not, the earlier one has the lower-cased name that is less or equal. When the
  request returns status 200 and a list of dicts whose names are texts, the returned
  listing holds exactly the entries of the other items, each as often as it was listed.
\<close>

theorem fetch_repo_structure_filtered_sorted:
  fixes got :: outcome
  defines "listing \<equiv> fetch_repo_structure got"
  shows "(\<forall>e\<in>set listing. \<not> ignored (name e)) \<and>
    (\<forall>i j. i < j \<and> j < length listing \<longrightarrow>
       (type (listing ! j) = JString ''dir'' \<longrightarrow> type (listing ! i) = JString ''dir'') \<and>
       ((type (listing ! i) = JString ''dir'') = (type (listing ! j) = JString ''dir'') \<longrightarrow>
          lower (name (listing ! i)) \<le> lower (name (listing ! j)))) \<and>
    (\<forall>r ds. got = Response r \<and> status_code r = 200 \<and> json r = Inr (JArray (map JObject ds)) \<and>
        (\<forall>d\<in>set ds. \<exists>nm. get d ''name'' (JString '''') = JString nm) \<longrightarrow>
        mset listing = mset (filter (\<lambda>e. \<not> ignored (name e)) (map item_entry ds)))"
proof (intro conjI)
  show "\<forall>e\<in>set listing. \<not> ignored (name e)"
    unfolding listing_def using structure_cases[of got] by (auto dest: collect_not_ignored)
next
  have s: "sorted (map sort_rank listing)"
    unfolding listing_def using structure_cases[of got] by auto
  show "\<forall>i j. i < j \<and> j < length listing \<longrightarrow>
       (type (listing ! j) = JString ''dir'' \<longrightarrow> type (listing ! i) = JString ''dir'') \<and>
       ((type (listing ! i) = JString ''dir'') = (type (listing ! j) = JString ''dir'') \<longrightarrow>
          lower (name (listing ! i)) \<le> lower (name (listing ! j)))"
  proof (intro allI impI)
    fix i j assume ij: "i < j \<and> j < length listing"
    then have "map sort_rank listing ! i \<le> map sort_rank listing ! j"
      using s by (intro sorted_nth_mono) auto
    then have "sort_rank (listing ! i) \<le> sort_rank (listing ! j)" using ij by simp
    then show "(type (listing ! j) = JString ''dir'' \<longrightarrow> type (listing ! i) = JString ''dir'') \<and>
       ((type (listing ! i) = JString ''dir'') = (type (listing ! j) = JString ''dir'') \<longrightarrow>
          lower (name (listing ! i)) \<le> lower (name (listing ! j)))"
      unfolding sort_rank_le by blast
  qed
next
  show "\<forall>r ds. got = Response r \<and> status_code r = 200 \<and> json r = Inr (JArray (map JObject ds)) \<and>
        (\<forall>d\<in>set ds. \<exists>nm. get d ''name'' (JString '''') = JString nm) \<longrightarrow>
        mset listing = mset (filter (\<lambda>e. \<not> ignored (name e)) (map item_entry ds))"
    unfolding listing_def by (auto simp: fetch_repo_structure_def collect_dicts)
qed

theorem fetch_repo_structure_filtered_sorted_witness:
  "ignored ''Node_Modules'' \<and>
   fetch_repo_structure (Response \<lparr>status_code = 200, headers = Map.empty, json = Inr (JArray
     [JObject [(''name'', JString ''setup.py''), (''type'', JString ''file'')],
      JObject [(''name'', JString ''Node_Modules''), (''type'', JString ''dir'')],
      JObject [(''name'', JString ''src''), (''type'', JString ''dir'')],
      JObject [(''name'', JString ''README.md''), (''type'', JString ''file'')],
      JObject [(''name'', JString ''Docs''), (''type'', JString ''dir'')]]), body = []\<rparr>) =
     [\<lparr>name = ''Docs'', type = JString ''dir'', path = JString ''Docs''\<rparr>,
      \<lparr>name = ''src'', type = JString ''dir'', path = JString ''src''\<rparr>,
      \<lparr>name = ''README.md'', type = JString ''file'', path = JString ''README.md''\<rparr>,
      \<lparr>name = ''setup.py'', type = JString ''file'', path = JString ''setup.py''\<rparr>]"
proof -
  have shown: "ignored ''Node_Modules'' \<and>
   fetch_repo_structure (Response \<lparr>status_code = 200, headers = Map.empty, json = Inr (JArray
     [JObject [(''name'', JString ''setup.py''), (''type'', JString ''file'')],
      JObject [(''name'', JString ''Node_Modules''), (''type'', JString ''dir'')],
      JObject [(''name'', JString ''src''), (''type'', JString ''dir'')],
      JObject [(''name'', JString ''README.md''), (''type'', JString ''file'')],
      JObject [(''name'', JString ''Docs''), (''type'', JString ''dir'')]]), body = []\<rparr>) =
     [\<lparr>name = ''Docs'', type = JString ''dir'', path = JString ''Docs''\<rparr>,
      \<lparr>name = ''src'', type = JString ''dir'', path = JString ''src''\<rparr>,
      \<lparr>name = ''README.md'', type = JString ''file'', path = JString ''README.md''\<rparr>,
      \<lparr>name = ''setup.py'', type = JString ''file'', path = JString ''setup.py''\<rparr>]"
    by code_simp
  from fetch_repo_structure_filtered_sorted [of "Response \<lparr>status_code = 200, headers = Map.empty, json = Inr (JArray
     [JObject [(''name'', JString ''setup.py''), (''type'', JString ''file'')],
      JObject [(''name'', JString ''Node_Modules''), (''type'', JString ''dir'')],
      JObject [(''name'', JString ''src''), (''type'', JString ''dir'')],
      JObject [(''name'', JString ''README.md''), (''type'', JString ''file'')],
      JObject [(''name'', JString ''Docs''), (''type'', JString ''dir'')]]), body = []\<rparr>"]
  show ?thesis by - (rule shown)
qed

section \<open>Properties of the remote-metadata client\<close>

declare digits.simps [simp del]








text \<open>
  C7. When the request for the repository record is answered with status 403,
  \<^verbatim>\<open>fetch_github_data\<close> returns no payload and a message: with the header
  \<^verbatim>\<open>X-RateLimit-Remaining\<close> equal to \<^verbatim>\<open>0\<close> the rate-limit message, which ends in the
  advice to add a token when no token is configured and in the advice to wait and try
  again when one is; with any other value of the header, or without it, the message that
  access is forbidden and the repository might be private.
\<close>

theorem rate_limit_messages:
  assumes "repo_got net = Response response" and "status_code response = 403"
  shows "fetch_github_data GITHUB_TOKEN b64decode net owner repo =
     Return (None, Some
       (if headers response ''X-RateLimit-Remaining'' = Some ''0'' then
          (if GITHUB_TOKEN = [] then
             ''GitHub API rate limit exceeded.\<newline>\<newline>'' @ bulb @
             '' TIP: Add a GitHub token to your .env file to get 5000 requests/hour instead of 60.\<newline>'' @
             ''Get one at: https://github.com/settings/tokens''
           else ''GitHub API rate limit exceeded.\<newline>\<newline>Please wait a few minutes and try again.'')
        else ''Access forbidden. The repository might be private.''))"
  using assms by (auto simp: fetch_github_data_def rate_limit_message_def split: option.splits)

theorem rate_limit_messages_witness:
  "fetch_github_data [] (\<lambda>c. None)
     \<lparr>repo_got = Response \<lparr>status_code = 403, headers = [''X-RateLimit-Remaining'' \<mapsto> ''0''],
                            json = Inr (JObject []), body = []\<rparr>,
      readme_got = Timeout, contents_got = Timeout, languages_got = Timeout,
      raw_got = (\<lambda>branch p. Timeout)\<rparr> ''octo'' ''demo'' =
   Return (None, Some (''GitHub API rate limit exceeded.\<newline>\<newline>'' @ bulb @
     '' TIP: Add a GitHub token to your .env file to get 5000 requests/hour instead of 60.\<newline>'' @
     ''Get one at: https://github.com/settings/tokens'')) \<and>
   fetch_github_data ''ghp_token'' (\<lambda>c. None)
     \<lparr>repo_got = Response \<lparr>status_code = 403, headers = [''X-RateLimit-Remaining'' \<mapsto> ''0''],
                            json = Inr (JObject []), body = []\<rparr>,
      readme_got = Timeout, contents_got = Timeout, languages_got = Timeout,
      raw_got = (\<lambda>branch p. Timeout)\<rparr> ''octo'' ''demo'' =
   Return (None, Some ''GitHub API rate limit exceeded.\<newline>\<newline>Please wait a few minutes and try again.'') \<and>
   fetch_github_data [] (\<lambda>c. None)
     \<lparr>repo_got = Response \<lparr>status_code = 403, headers = [''X-RateLimit-Remaining'' \<mapsto> ''57''],
                            json = Inr (JObject []), body = []\<rparr>,
      readme_got = Timeout, contents_got = Timeout, languages_got = Timeout,
      raw_got = (\<lambda>branch p. Timeout)\<rparr> ''octo'' ''demo'' =
   Return (None, Some ''Access forbidden. The repository might be private.'')"
  using
    rate_limit_messages [of
      "\<lparr>repo_got = Response \<lparr>status_code = 403, headers = [''X-RateLimit-Remaining'' \<mapsto> ''0''],
                            json = Inr (JObject []), body = []\<rparr>,
      readme_got = Timeout, contents_got = Timeout, languages_got = Timeout,
      raw_got = (\<lambda>branch p. Timeout)\<rparr>"
      "\<lparr>status_code = 403, headers = [''X-RateLimit-Remaining'' \<mapsto> ''0''],
                            json = Inr (JObject []), body = []\<rparr>" "[]" "\<lambda>c. None" "''octo''" "''demo''"]
    rate_limit_messages [of
      "\<lparr>repo_got = Response \<lparr>status_code = 403, headers = [''X-RateLimit-Remaining'' \<mapsto> ''0''],
                            json = Inr (JObject []), body = []\<rparr>,
      readme_got = Timeout, contents_got = Timeout, languages_got = Timeout,
      raw_got = (\<lambda>branch p. Timeout)\<rparr>"
      "\<lparr>status_code = 403, headers = [''X-RateLimit-Remaining'' \<mapsto> ''0''],
                            json = Inr (JObject []), body = []\<rparr>" "''ghp_token''" "\<lambda>c. None" "''octo''" "''demo''"]
    rate_limit_messages [of
      "\<lparr>repo_got = Response \<lparr>status_code = 403, headers = [''X-RateLimit-Remaining'' \<mapsto> ''57''],
                            json = Inr (JObject []), body = []\<rparr>,
      readme_got = Timeout, contents_got = Timeout, languages_got = Timeout,
      raw_got = (\<lambda>branch p. Timeout)\<rparr>"
      "\<lparr>status_code = 403, headers = [''X-RateLimit-Remaining'' \<mapsto> ''57''],
                            json = Inr (JObject []), body = []\<rparr>" "[]" "\<lambda>c. None" "''octo''" "''demo''"]
  by simp



section \<open>Properties of the decoder\<close>

subsection \<open>What a scanner reads\<close>

lemma reads_Cons: "reads s rest \<Longrightarrow> reads (c # s) rest"
  unfolding reads_def by (metis append_Cons last_ConsR list.distinct(1))

lemma reads_append: "reads s rest \<Longrightarrow> reads (w @ s) rest"
  by (induction w) (auto intro: reads_Cons)

lemma reads_suffix: "suffix (d # rest) s \<Longrightarrow> d \<noteq> CHR 0x60 \<Longrightarrow> reads s rest"
  unfolding reads_def suffix_def
  by (metis append.assoc append_Cons append_Nil last_snoc snoc_eq_iff_butlast)

lemma reads_skip_ws: "reads (skip_ws s) rest \<Longrightarrow> reads s rest"
proof -
  assume r: "reads (skip_ws s) rest"
  have "s = takeWhile json_ws s @ skip_ws s" by (simp add: skip_ws_def)
  then show ?thesis using reads_append[OF r, of "takeWhile json_ws s"] by simp
qed

lemma suffix_skip_ws: "suffix x (skip_ws s) \<Longrightarrow> suffix x s"
  unfolding skip_ws_def by (meson suffix_dropWhile suffix_order.trans)

lemma reads_trans: "reads s rest \<Longrightarrow> suffix x rest \<Longrightarrow> x = d # r \<Longrightarrow> d \<noteq> CHR 0x60 \<Longrightarrow> reads s r"
  unfolding reads_def suffix_def
  by (metis append.assoc append_Cons append_Nil last_snoc snoc_eq_iff_butlast)

lemma scanstring_consumed: "scanstring s = Return (t, rest) \<Longrightarrow> suffix (CHR 0x22 # rest) s"
proof (induction s arbitrary: t rule: length_induct)
  case (1 s)
  show ?case
  proof (cases s)
    case Nil
    with "1.prems" show ?thesis by simp
  next
    case (Cons c cs)
    from "1.prems" Cons consider (quote) "c = CHR 0x22" "rest = cs"
      | (step) r t' where "scanstring r = Return (t', rest)" "suffix r cs"
      by (auto simp: suffix_Cons split: if_splits list.splits option.splits
          dest!: cons_text_Return)
    then show ?thesis
    proof cases
      case quote
      then show ?thesis using Cons by simp
    next
      case step
      from step(2) have "length r < length s" using Cons by (auto dest: suffix_length_le)
      with "1.IH" step(1) have "suffix (CHR 0x22 # rest) r" by blast
      with step(2) have "suffix (CHR 0x22 # rest) cs" by (meson suffix_order.trans)
      then show ?thesis using Cons by (simp add: suffix_ConsI)
    qed
  qed
qed

lemma last_takeWhile: "takeWhile P xs \<noteq> [] \<Longrightarrow> P (last (takeWhile P xs))"
  using last_in_set set_takeWhileD by metis

lemma last_digits: "is_digit c \<Longrightarrow> is_digit (last (c # takeWhile is_digit cs))"
  using last_takeWhile[of is_digit cs] by simp

lemma is_digit_zero: "is_digit (CHR ''0'')"
  by (simp add: is_digit_def)

lemma int_part_consumed:
  "int_part s = Some (lx, rest) \<Longrightarrow> s = lx @ rest \<and> lx \<noteq> [] \<and> is_digit (last lx)"
  using last_digits is_digit_zero
  by (auto simp: int_part_def split: list.splits if_splits)

lemma frac_part_consumed:
  "frac_part s = (lx, rest) \<Longrightarrow> s = lx @ rest \<and> (lx = [] \<or> is_digit (last lx))"
  using last_digits by (auto simp: frac_part_def split: list.splits if_splits)

lemma exp_part_consumed:
  "exp_part s = (lx, rest) \<Longrightarrow> s = lx @ rest \<and> (lx = [] \<or> is_digit (last lx))"
  using last_takeWhile[of is_digit]
  by (auto simp: exp_part_def exp_sign_def split: list.splits if_splits prod.splits)

lemma match_number_consumed:
  assumes "match_number s = Some (lx, rest)"
  shows "s = lx @ rest \<and> lx \<noteq> [] \<and> is_digit (last lx)"
proof -
  define p where "p = (case s of c # cs \<Rightarrow> if c = CHR ''-'' then ([c], cs) else ([], s) | [] \<Rightarrow> ([], s))"
  obtain sign s1 where p: "p = (sign, s1)" by (cases p)
  have s: "s = sign @ s1" using p unfolding p_def by (auto split: list.splits if_splits)
  from assms p obtain ip s2 fp s3 ep where
    i: "int_part s1 = Some (ip, s2)" and f: "frac_part s2 = (fp, s3)" and e: "exp_part s3 = (ep, rest)"
    and lx: "lx = sign @ ip @ fp @ ep"
    unfolding match_number_def p_def[symmetric]
    by (auto split: option.splits prod.splits)
  from int_part_consumed[OF i] frac_part_consumed[OF f] exp_part_consumed[OF e]
  show ?thesis using s lx by (cases "ep = []"; cases "fp = []") auto
qed

lemma is_digit_not_fence: "is_digit c \<Longrightarrow> c \<noteq> CHR 0x60"
  by (auto simp: is_digit_def)

lemma literal_reads:
  "startswith s p \<Longrightarrow> p \<noteq> [] \<Longrightarrow> last p \<noteq> CHR 0x60 \<Longrightarrow> n = length p \<Longrightarrow> reads s (drop n s)"
  unfolding reads_def startswith_def by (metis append_take_drop_id)

lemma literals_read:
  "startswith s ''null'' \<Longrightarrow> reads s (drop 4 s)"
  "startswith s ''true'' \<Longrightarrow> reads s (drop 4 s)"
  "startswith s ''false'' \<Longrightarrow> reads s (drop 5 s)"
  "startswith s ''NaN'' \<Longrightarrow> reads s (drop 3 s)"
  "startswith s ''Infinity'' \<Longrightarrow> reads s (drop 8 s)"
  "startswith s ''-Infinity'' \<Longrightarrow> reads s (drop 9 s)"
  by (erule literal_reads; simp)+

lemma scan_atom_reads: "scan_atom s = Return (v, rest) \<Longrightarrow> reads s rest"
proof -
  assume a: "scan_atom s = Return (v, rest)"
  show ?thesis
  proof (cases "match_number s")
    case None
    then show ?thesis using a
      by (auto simp: scan_atom_def literals_read split: if_splits)
  next
    case (Some p)
    obtain lx r where p: "p = (lx, r)" by (cases p)
    from match_number_consumed[OF Some[unfolded p]] have "reads s r"
      unfolding reads_def using is_digit_not_fence by blast
    then show ?thesis using a Some p
      by (auto simp: scan_atom_def literals_read split: if_splits)
  qed
qed

declare scan_once.simps [simp del] parse_array.simps [simp del] parse_object.simps [simp del]

lemma reads_suffixD: "reads s rest \<Longrightarrow> suffix rest s"
  by (auto simp: reads_def suffix_def)

lemma reads_into: "suffix t s \<Longrightarrow> reads t rest \<Longrightarrow> reads s rest"
  by (auto simp: suffix_def intro: reads_append)

lemma suffix_skip_ws_self: "suffix (skip_ws s) s"
  by (simp add: skip_ws_def suffix_dropWhile)

lemma suffix_tl: "suffix (d # r) y \<Longrightarrow> suffix r y"
  by (metis suffix_ConsD)

lemma scan_reads:
  shows "scan_once s = Return (v, rest) \<Longrightarrow> reads s rest"
    and "parse_array s items = Return (v, rest) \<Longrightarrow> reads s rest"
    and "parse_object s pairs = Return (v, rest) \<Longrightarrow> reads s rest"
proof (induction s and s items and s pairs arbitrary: v rest and v rest and v rest
    rule: scan_once_parse_array_parse_object.induct)
  case (1 s)
  from "1.prems" obtain c cs where s: "s = c # cs"
    by (cases s) (auto simp: scan_once.simps)
  consider (str) "c = CHR 0x22"
    | (obj) "c \<noteq> CHR 0x22" "c = CHR ''{''"
    | (arr) "c \<noteq> CHR 0x22" "c \<noteq> CHR ''{''" "c = CHR ''[''"
    | (atom) "c \<noteq> CHR 0x22" "c \<noteq> CHR ''{''" "c \<noteq> CHR ''[''" by blast
  then show ?case
  proof cases
    case str
    with "1.prems" s obtain t where "scanstring cs = Return (t, rest)"
      by (auto simp: scan_once.simps split: result.splits)
    then have "suffix (CHR 0x22 # rest) cs" by (rule scanstring_consumed)
    then have "reads cs rest" by (rule reads_suffix) simp
    then show ?thesis unfolding s by (rule reads_Cons)
  next
    case obj
    with "1.prems" s obtain d r where d: "skip_ws cs = d # r"
      by (cases "skip_ws cs") (auto simp: scan_once.simps)
    show ?thesis
    proof (cases "d = CHR ''}''")
      case True
      with "1.prems" s obj d have "rest = r" by (simp add: scan_once.simps)
      with d True have "suffix (CHR ''}'' # rest) cs" using suffix_skip_ws_self[of cs] by simp
      then have "reads cs rest" by (rule reads_suffix) simp
      then show ?thesis unfolding s by (rule reads_Cons)
    next
      case False
      with "1.prems" s obj d have "parse_object (skip_ws cs) [] = Return (v, rest)"
        by (simp add: scan_once.simps)
      with "1.IH"(1)[OF s obj d False] have "reads (skip_ws cs) rest" by blast
      then have "reads cs rest" by (rule reads_skip_ws)
      then show ?thesis unfolding s by (rule reads_Cons)
    qed
  next
    case arr
    with "1.prems" s obtain d r where d: "skip_ws cs = d # r"
      by (cases "skip_ws cs") (auto simp: scan_once.simps)
    show ?thesis
    proof (cases "d = CHR '']''")
      case True
      with "1.prems" s arr d have "rest = r" by (simp add: scan_once.simps)
      with d True have "suffix (CHR '']'' # rest) cs" using suffix_skip_ws_self[of cs] by simp
      then have "reads cs rest" by (rule reads_suffix) simp
      then show ?thesis unfolding s by (rule reads_Cons)
    next
      case False
      with "1.prems" s arr d have "parse_array (skip_ws cs) [] = Return (v, rest)"
        by (simp add: scan_once.simps)
      with "1.IH"(2)[OF s arr d False] have "reads (skip_ws cs) rest" by blast
      then have "reads cs rest" by (rule reads_skip_ws)
      then show ?thesis unfolding s by (rule reads_Cons)
    qed
  next
    case atom
    with "1.prems" s have "scan_atom s = Return (v, rest)" by (simp add: scan_once.simps)
    then show ?thesis by (rule scan_atom_reads)
  qed
next
  case (2 s items)
  from "2.prems" obtain item y where sc: "scan_once s = Return (item, y)"
    by (auto simp: parse_array.simps split: result.splits)
  from "2.prems" sc have len: "length y < length s"
    by (auto simp: parse_array.simps split: if_splits)
  from "2.prems" sc len obtain d r where d: "skip_ws y = d # r"
    by (cases "skip_ws y") (auto simp: parse_array.simps)
  have rs: "reads s y" using "2.IH"(1) sc by blast
  have suf: "suffix (d # r) y" using suffix_skip_ws_self[of y] d by simp
  show ?case
  proof (cases "d = CHR '']''")
    case True
    with "2.prems" sc len d have "rest = r" by (simp add: parse_array.simps)
    with rs suf True show ?thesis by (auto intro: reads_trans)
  next
    case False
    with "2.prems" sc len d have comma: "d = CHR '',''"
      and next_item: "parse_array (skip_ws r) (items @ [item]) = Return (v, rest)"
      by (auto simp: parse_array.simps split: if_splits)
    from "2.IH"(2)[OF sc _ len d False comma] next_item
    have "reads (skip_ws r) rest" by auto
    moreover have "suffix (skip_ws r) s"
      using suffix_skip_ws_self[of r] suffix_tl[OF suf] reads_suffixD[OF rs]
      by (meson suffix_order.trans)
    ultimately show ?thesis by (rule reads_into[rotated])
  qed
next
  case (3 s pairs)
  from "3.prems" obtain q cs where s: "s = q # cs" and q: "\<not> q \<noteq> CHR 0x22"
    by (cases s) (auto simp: parse_object.simps split: if_splits)
  from "3.prems" s q obtain key y where k: "scanstring cs = Return (key, y)"
    by (auto simp: parse_object.simps split: result.splits)
  from "3.prems" s q k obtain colon r where c: "skip_ws y = colon # r" and colon: "\<not> colon \<noteq> CHR '':''"
    by (cases "skip_ws y") (auto simp: parse_object.simps split: if_splits)
  from "3.prems" s q k c colon obtain item y' where sc: "scan_once (skip_ws r) = Return (item, y')"
    by (auto simp: parse_object.simps split: result.splits)
  from "3.prems" s q k c colon sc have len: "length y' < length (skip_ws r)"
    by (auto simp: parse_object.simps split: if_splits)
  from "3.prems" s q k c colon sc len obtain d r' where d: "skip_ws y' = d # r'"
    by (cases "skip_ws y'") (auto simp: parse_object.simps)
  have rv: "reads (skip_ws r) y'" using "3.IH"(1)[OF s q k _ c colon] sc by auto
  have "suffix (CHR 0x22 # y) cs" using k by (rule scanstring_consumed)
  then have "suffix y s" unfolding s by (meson suffix_ConsD suffix_ConsI)
  moreover have "suffix (colon # r) y" using suffix_skip_ws_self[of y] c by simp
  ultimately have "suffix r s" by (meson suffix_tl suffix_order.trans)
  then have sr: "suffix (skip_ws r) s" using suffix_skip_ws_self[of r] by (meson suffix_order.trans)
  have suf: "suffix (d # r') y'" using suffix_skip_ws_self[of y'] d by simp
  show ?case
  proof (cases "d = CHR ''}''")
    case True
    with "3.prems" s q k c colon sc len d have "rest = r'" by (simp add: parse_object.simps)
    with rv suf True have "reads (skip_ws r) rest" by (auto intro: reads_trans)
    with sr show ?thesis by (rule reads_into)
  next
    case False
    with "3.prems" s q k c colon sc len d have comma: "d = CHR '',''"
      and next_pair: "parse_object (skip_ws r') (AList.update key item pairs) = Return (v, rest)"
      by (auto simp: parse_object.simps split: if_splits)
    from "3.IH"(2)[OF s q k _ c colon sc _ len d False comma] next_pair
    have "reads (skip_ws r') rest" by auto
    moreover have "suffix (skip_ws r') s"
      using suffix_skip_ws_self[of r'] suffix_tl[OF suf] reads_suffixD[OF rv] sr
      by (meson suffix_order.trans)
    ultimately show ?thesis by (rule reads_into[rotated])
  qed
qed

lemma scan_once_shorter: "scan_once s = Return (v, rest) \<Longrightarrow> length rest < length s"
  by (drule scan_reads(1)) (auto simp: reads_def)

subsection \<open>The first and the last character of a JSON text\<close>








section \<open>Properties of the response normalizer\<close>

subsection \<open>Trimming and the fence markers\<close>












subsection \<open>Defaults, the diagram and the tech stack\<close>

lemma map_of_fill_default:
  "map_of (fill_default key data) k =
     (if map_of data key = None \<and> k = key then Some (dflt key) else map_of data k)"
  by (simp add: fill_default_def dflt_def update_conv')

lemma map_of_fold_fill_default:
  "map_of (fold fill_default keys data) k =
     (case map_of data k of
        Some v \<Rightarrow> Some v
      | None \<Rightarrow> if k \<in> set keys then Some (dflt k) else None)"
proof (induction keys arbitrary: data)
  case Nil
  show ?case by (simp split: option.splits)
next
  case (Cons key keys)
  show ?case unfolding fold_simps Cons.IH map_of_fill_default
    by (auto split: option.splits)
qed

lemma repaired_graph: "repaired m = [] \<or> startswith (repaired m) ''graph''"
  by (auto simp: repaired_def Let_def startswith_def)

lemma repaired_Nil: "repaired [] = []"
  by (simp add: repaired_def Let_def strip_def lstrip_def rstrip_def lower_def)

lemma repair_diagram_text:
  assumes "map_of data ''architecture_mermaid'' = Some (JString m)"
  shows "\<exists>d. repair_diagram data = Return d \<and>
           map_of d = (map_of data)(''architecture_mermaid'' \<mapsto> JString (repaired m))"
  using assms by (auto simp: repair_diagram_def repaired_def Let_def update_conv')

lemma repair_diagram_Return:
  assumes "repair_diagram data = Return d" and "map_of data ''architecture_mermaid'' \<noteq> None"
  shows "\<exists>m. map_of data ''architecture_mermaid'' = Some (JString m) \<and>
           map_of d = (map_of data)(''architecture_mermaid'' \<mapsto> JString (repaired m))"
proof -
  from assms obtain m where m: "map_of data ''architecture_mermaid'' = Some (JString m)"
    by (auto simp: repair_diagram_def split: option.splits json.splits)
  from repair_diagram_text[OF m] assms(1) m show ?thesis by auto
qed

lemma texts_map: "texts (map JString ts) = Some ts"
  by (induction ts) auto

lemma join_tech_stack_Return:
  assumes "join_tech_stack d = Return r"
  shows "map_of r = map_of d \<or>
     (\<exists>items ts. map_of d ''tech_stack'' = Some (JArray items) \<and> texts items = Some ts \<and>
        map_of r = (map_of d)(''tech_stack'' \<mapsto> JString (join '', '' ts)))"
  using assms
  by (auto simp: join_tech_stack_def update_conv' split: option.splits json.splits)

lemma join_tech_stack_list:
  assumes "map_of d ''tech_stack'' = Some (JArray items)"
  shows "join_tech_stack d =
     (case texts items of
        Some ts \<Rightarrow> Return (AList.update ''tech_stack'' (JString (join '', '' ts)) d)
      | None \<Rightarrow> Raise TypeError)"
  using assms by (simp add: join_tech_stack_def)

lemma join_tech_stack_other:
  assumes "map_of d ''tech_stack'' = Some v" and "\<forall>items. v \<noteq> JArray items"
  shows "join_tech_stack d = Return d"
  using assms by (cases v) (auto simp: join_tech_stack_def)

lemma filled_diagram:
  "map_of (fold fill_default default_keys data) ''architecture_mermaid'' =
     (case map_of data ''architecture_mermaid'' of Some v \<Rightarrow> Some v | None \<Rightarrow> Some (JString []))"
  unfolding map_of_fold_fill_default by (simp add: default_keys_def dflt_def split: option.splits)

lemma filled_tech_stack:
  "map_of (fold fill_default default_keys data) ''tech_stack'' =
     (case map_of data ''tech_stack'' of
        Some v \<Rightarrow> Some v | None \<Rightarrow> Some (JString ''Not available''))"
  unfolding map_of_fold_fill_default by (simp add: default_keys_def dflt_def split: option.splits)

lemma normalize_Return:
  assumes "normalize_dict data = Return r"
  shows "\<exists>m d. map_of (fold fill_default default_keys data) ''architecture_mermaid'' = Some (JString m) \<and>
     map_of d = (map_of (fold fill_default default_keys data))(''architecture_mermaid'' \<mapsto> JString (repaired m)) \<and>
     join_tech_stack d = Return r"
proof -
  define f where "f = fold fill_default default_keys data"
  from assms obtain d where d: "repair_diagram f = Return d" and j: "join_tech_stack d = Return r"
    unfolding normalize_dict_def f_def[symmetric] by (cases "repair_diagram f") auto
  have "map_of f ''architecture_mermaid'' \<noteq> None"
    unfolding f_def filled_diagram by (simp split: option.splits)
  from repair_diagram_Return[OF d this] j show ?thesis unfolding f_def by blast
qed

lemma normalize_diagram:
  assumes "normalize_dict data = Return r"
  shows "\<exists>m. map_of r ''architecture_mermaid'' = Some (JString m) \<and> (m = [] \<or> startswith m ''graph'')"
proof -
  from normalize_Return[OF assms] obtain m d where
    d: "map_of d = (map_of (fold fill_default default_keys data))(''architecture_mermaid'' \<mapsto> JString (repaired m))"
    and j: "join_tech_stack d = Return r" by blast
  from join_tech_stack_Return[OF j] d
  have "map_of r ''architecture_mermaid'' = Some (JString (repaired m))" by auto
  then show ?thesis using repaired_graph[of m] by blast
qed

lemma normalize_outcome:
  assumes "map_of data ''architecture_mermaid'' = None \<or>
           (\<exists>m. map_of data ''architecture_mermaid'' = Some (JString m))"
  shows "(normalize_dict data = Raise TypeError \<and>
            (\<exists>items. map_of data ''tech_stack'' = Some (JArray items) \<and> texts items = None)) \<or>
         (\<exists>r. normalize_dict data = Return r)"
proof -
  define f where "f = fold fill_default default_keys data"
  from assms obtain m where m: "map_of f ''architecture_mermaid'' = Some (JString m)"
    unfolding f_def filled_diagram by auto
  from repair_diagram_text[OF m] obtain d where d: "repair_diagram f = Return d"
    and md: "map_of d = (map_of f)(''architecture_mermaid'' \<mapsto> JString (repaired m))" by blast
  have n: "normalize_dict data = join_tech_stack d" unfolding normalize_dict_def f_def[symmetric] d by simp
  have ts: "map_of d ''tech_stack'' =
     (case map_of data ''tech_stack'' of Some v \<Rightarrow> Some v | None \<Rightarrow> Some (JString ''Not available''))"
    unfolding md f_def using filled_tech_stack[of data] by simp
  show ?thesis
  proof (cases "\<exists>items. map_of data ''tech_stack'' = Some (JArray items)")
    case True
    then obtain items where i: "map_of data ''tech_stack'' = Some (JArray items)" by blast
    then have "map_of d ''tech_stack'' = Some (JArray items)" using ts by simp
    from join_tech_stack_list[OF this] show ?thesis using n i by (cases "texts items") auto
  next
    case False
    then obtain v where v: "map_of d ''tech_stack'' = Some v" "\<forall>items. v \<noteq> JArray items"
      using ts by (cases "map_of data ''tech_stack''") auto
    from join_tech_stack_other[OF this] show ?thesis using n by simp
  qed
qed

lemma normalize_defaults:
  assumes "normalize_dict data = Return r" and "key \<in> set default_keys" and "map_of data key = None"
  shows "map_of r key = Some (dflt key)"
proof -
  define f where "f = fold fill_default default_keys data"
  from normalize_Return[OF assms(1)] obtain m d where
    m: "map_of f ''architecture_mermaid'' = Some (JString m)"
    and d: "map_of d = (map_of f)(''architecture_mermaid'' \<mapsto> JString (repaired m))"
    and j: "join_tech_stack d = Return r" unfolding f_def by blast
  have fk: "map_of f key = Some (dflt key)"
    unfolding f_def map_of_fold_fill_default using assms(2,3) by simp
  have dk: "map_of d key = Some (dflt key)"
  proof (cases "key = ''architecture_mermaid''")
    case True
    then have "m = []" using m fk by (simp add: dflt_def)
    then show ?thesis unfolding d using True by (simp add: repaired_Nil dflt_def)
  next
    case False
    then show ?thesis unfolding d using fk by simp
  qed
  from join_tech_stack_Return[OF j] show ?thesis
  proof
    assume "map_of r = map_of d"
    then show ?thesis using dk by simp
  next
    assume "\<exists>items ts. map_of d ''tech_stack'' = Some (JArray items) \<and> texts items = Some ts \<and>
        map_of r = (map_of d)(''tech_stack'' \<mapsto> JString (join '', '' ts))"
    then obtain items ts where i: "map_of d ''tech_stack'' = Some (JArray items)"
      and r: "map_of r = (map_of d)(''tech_stack'' \<mapsto> JString (join '', '' ts))" by blast
    from i dk have "key \<noteq> ''tech_stack''" by (auto simp: dflt_def)
    then show ?thesis unfolding r using dk by simp
  qed
qed

lemma normalize_joined:
  assumes "normalize_dict data = Return r" and "map_of data ''tech_stack'' = Some (JArray (map JString ts))"
  shows "map_of r ''tech_stack'' = Some (JString (join '', '' ts))"
proof -
  define f where "f = fold fill_default default_keys data"
  from normalize_Return[OF assms(1)] obtain m d where
    d: "map_of d = (map_of f)(''architecture_mermaid'' \<mapsto> JString (repaired m))"
    and j: "join_tech_stack d = Return r" unfolding f_def by blast
  have "map_of d ''tech_stack'' = Some (JArray (map JString ts))"
    unfolding d f_def using filled_tech_stack[of data] assms(2) by simp
  from join_tech_stack_list[OF this] j show ?thesis by (simp add: texts_map update_conv')
qed

lemma parse_analysis_dict:
  "loads (strip_fences analysis_text) = Return (JObject data) \<Longrightarrow> parse_analysis analysis_text = normalize_dict data"
  by (simp add: parse_analysis_def)

lemma parse_analysis_Return:
  assumes "parse_analysis analysis_text = Return r"
  shows "r = parse_failure analysis_text \<or>
         (\<exists>data. loads (strip_fences analysis_text) = Return (JObject data) \<and> normalize_dict data = Return r)"
  using assms
  by (auto simp: parse_analysis_def split: result.splits json.splits exn.splits)

text \<open>
  What holds of the fields: when the fence-stripped input is a dict and a record is
  returned, every key of \<^verbatim>\<open>default_keys\<close> that the dict lacks has the empty text (the
  diagram) or \<^verbatim>\<open>Not available\<close> (the others) in the record, and a tech stack that is a
  list of texts has become these texts joined by a comma and a blank. A record is returned
  whenever the diagram is absent or a text and the tech stack is not a list with an item
  that is no text.
\<close>

lemma returned_record_fields:
  \<open>parse_analysis ''{"tech_stack":["Go","Redis"],"project_type":"API"}'' = Return
     [(''tech_stack'', JString ''Go, Redis''), (''project_type'', JString ''API''),
      (''architecture_mermaid'', JString []),
      (''architecture_description'', JString ''Not available''),
      (''what_it_does'', JString ''Not available''),
      (''recruiter_summary'', JString ''Not available'')] \<and>
   (\<forall>analysis_text data r.
      loads (strip_fences analysis_text) = Return (JObject data) \<and>
      parse_analysis analysis_text = Return r \<longrightarrow>
      (\<forall>key\<in>set default_keys. map_of data key = None \<longrightarrow>
         map_of r key =
           Some (JString (if key = ''architecture_mermaid'' then [] else ''Not available''))) \<and>
      (\<forall>ts. map_of data ''tech_stack'' = Some (JArray (map JString ts)) \<longrightarrow>
         map_of r ''tech_stack'' = Some (JString (join '', '' ts)))) \<and>
   (\<forall>analysis_text data.
      loads (strip_fences analysis_text) = Return (JObject data) \<and>
      (map_of data ''architecture_mermaid'' = None \<or>
       (\<exists>m. map_of data ''architecture_mermaid'' = Some (JString m))) \<and>
      (\<forall>items. map_of data ''tech_stack'' = Some (JArray items) \<longrightarrow> texts items \<noteq> None) \<longrightarrow>
      (\<exists>r. parse_analysis analysis_text = Return r))\<close>
proof (intro conjI allI impI ballI)
  show \<open>parse_analysis ''{"tech_stack":["Go","Redis"],"project_type":"API"}'' = Return
     [(''tech_stack'', JString ''Go, Redis''), (''project_type'', JString ''API''),
      (''architecture_mermaid'', JString []),
      (''architecture_description'', JString ''Not available''),
      (''what_it_does'', JString ''Not available''),
      (''recruiter_summary'', JString ''Not available'')]\<close>
    by code_simp
next
  fix analysis_text data r key
  assume a: "loads (strip_fences analysis_text) = Return (JObject data) \<and>
      parse_analysis analysis_text = Return r"
    and k: "key \<in> set default_keys" "map_of data key = None"
  from a parse_analysis_dict[of analysis_text data] have "normalize_dict data = Return r" by simp
  from normalize_defaults[OF this k]
  show "map_of r key = Some (JString (if key = ''architecture_mermaid'' then [] else ''Not available''))"
    by (simp add: dflt_def)
next
  fix analysis_text data r ts
  assume a: "loads (strip_fences analysis_text) = Return (JObject data) \<and>
      parse_analysis analysis_text = Return r"
    and t: "map_of data ''tech_stack'' = Some (JArray (map JString ts))"
  from a parse_analysis_dict[of analysis_text data] have "normalize_dict data = Return r" by simp
  from normalize_joined[OF this t]
  show "map_of r ''tech_stack'' = Some (JString (join '', '' ts))" .
next
  fix analysis_text data
  assume a: "loads (strip_fences analysis_text) = Return (JObject data) \<and>
      (map_of data ''architecture_mermaid'' = None \<or>
       (\<exists>m. map_of data ''architecture_mermaid'' = Some (JString m))) \<and>
      (\<forall>items. map_of data ''tech_stack'' = Some (JArray items) \<longrightarrow> texts items \<noteq> None)"
  then have p: "parse_analysis analysis_text = normalize_dict data"
    using parse_analysis_dict[of analysis_text data] by simp
  from a normalize_outcome[of data] show "\<exists>r. parse_analysis analysis_text = Return r"
    unfolding p by auto
qed

lemma returned_record_fields_example:
  \<open>\<exists>r. parse_analysis ''```json\<newline>{"tech_stack": ["Flask", "Jinja"], "what_it_does": "Explains"}\<newline>```'' = Return r \<and>
     map_of r ''tech_stack'' = Some (JString ''Flask, Jinja'') \<and>
     map_of r ''architecture_mermaid'' = Some (JString []) \<and>
     map_of r ''recruiter_summary'' = Some (JString ''Not available'')\<close>
proof -
  define t where \<open>t = ''```json\<newline>{"tech_stack": ["Flask", "Jinja"], "what_it_does": "Explains"}\<newline>```''\<close>
  define d where "d = [(''tech_stack'', JArray (map JString [''Flask'', ''Jinja''])), (''what_it_does'', JString ''Explains'')]"
  have l: "loads (strip_fences t) = Return (JObject d)" unfolding t_def d_def by code_simp
  have m: "map_of d ''architecture_mermaid'' = None" "map_of d ''recruiter_summary'' = None"
    and s: "map_of d ''tech_stack'' = Some (JArray (map JString [''Flask'', ''Jinja'']))"
    and i: "\<forall>items. map_of d ''tech_stack'' = Some (JArray items) \<longrightarrow> texts items \<noteq> None"
    unfolding d_def by simp_all
  note claim = returned_record_fields
  from claim l m(1) i obtain r where r: "parse_analysis t = Return r" by blast
  have k: "''architecture_mermaid'' \<in> set default_keys" "''recruiter_summary'' \<in> set default_keys"
    by (simp_all add: default_keys_def)
  from claim l r k m have "map_of r ''architecture_mermaid'' = Some (JString [])"
    and "map_of r ''recruiter_summary'' = Some (JString ''Not available'')" by force+
  moreover from claim l r s have "map_of r ''tech_stack'' = Some (JString (join '', '' [''Flask'', ''Jinja'']))"
    by blast
  ultimately show ?thesis using r unfolding t_def by auto
qed

subsection \<open>The claims on the normalizer\<close>

text \<open>
  C1. The normalizer is to return a record of six fields for every input and never to
  raise. The code handles \<^verbatim>\<open>json.JSONDecodeError\<close> only: an answer that is JSON but no
  dict raises \<^verbatim>\<open>TypeError\<close>, a diagram that is no text raises \<^verbatim>\<open>AttributeError\<close>, and a
  tech stack that lists something other than texts raises \<^verbatim>\<open>TypeError\<close>.
\<close>

theorem parse_analysis_raises:
  \<open>parse_analysis ''[]'' = Raise TypeError \<and>
   parse_analysis ''{"architecture_mermaid": null}'' = Raise AttributeError \<and>
   parse_analysis ''{"tech_stack": ["Go", 1]}'' = Raise TypeError\<close>
  by code_simp

text \<open>
  C3. The diagram \<^verbatim>\<open>A-->B\<close> gets the header \<^verbatim>\<open>graph TD;\<close> and a line break in front, as
  claimed. A diagram that reads \<^verbatim>\<open>Not Available\<close> is to become the empty text; the code
  puts the header in front of it first, so that the comparison with \<^verbatim>\<open>not available\<close> in
  line 346 fails and the diagram is returned with the header.
\<close>

theorem diagram_not_available_kept:
  \<open>parse_analysis ''{"architecture_mermaid":"A-->B"}'' = Return
     [(''architecture_mermaid'', JString ''graph TD;\<newline>A-->B''),
      (''tech_stack'', JString ''Not available''),
      (''project_type'', JString ''Not available''),
      (''architecture_description'', JString ''Not available''),
      (''what_it_does'', JString ''Not available''),
      (''recruiter_summary'', JString ''Not available'')] \<and>
   parse_analysis ''{"architecture_mermaid":"Not Available"}'' = Return
     [(''architecture_mermaid'', JString ''graph TD;\<newline>Not Available''),
      (''tech_stack'', JString ''Not available''),
      (''project_type'', JString ''Not available''),
      (''architecture_description'', JString ''Not available''),
      (''what_it_does'', JString ''Not available''),
      (''recruiter_summary'', JString ''Not available'')]\<close>
  by code_simp




text \<open>
  C5. The input of the claim yields the record of the claim. In general every absent field
  is to be given its default and a tech stack that is a list is to be joined into one text.
  The code fails at this through the defect of C1: with the number 8 for the second item
  of the tech stack of the claim's input the join raises \<^verbatim>\<open>TypeError\<close> at line 350 and no
  text is made of the list, and with the diagram \<^verbatim>\<open>null\<close> in place of the project type
  \<^verbatim>\<open>replace\<close> raises \<^verbatim>\<open>AttributeError\<close> at line 339, so that the three absent fields,
  which line 334 has filled, are never returned.
\<close>

theorem tech_stack_item_raises:
  \<open>parse_analysis ''{"tech_stack":["Go","Redis"],"project_type":"API"}'' = Return
     [(''tech_stack'', JString ''Go, Redis''), (''project_type'', JString ''API''),
      (''architecture_mermaid'', JString []),
      (''architecture_description'', JString ''Not available''),
      (''what_it_does'', JString ''Not available''),
      (''recruiter_summary'', JString ''Not available'')] \<and>
   loads ''{"tech_stack":["Go",8],"project_type":"API"}'' = Return (JObject
     [(''tech_stack'', JArray [JString ''Go'', JNumber ''8'']), (''project_type'', JString ''API'')]) \<and>
   parse_analysis ''{"tech_stack":["Go",8],"project_type":"API"}'' = Raise TypeError \<and>
   loads ''{"tech_stack":["Go","Redis"],"architecture_mermaid":null}'' = Return (JObject
     [(''tech_stack'', JArray [JString ''Go'', JString ''Redis'']), (''architecture_mermaid'', JNull)]) \<and>
   parse_analysis ''{"tech_stack":["Go","Redis"],"architecture_mermaid":null}'' = Raise AttributeError\<close>
  by code_simp

text \<open>
  C9. In every record that the normalizer returns the diagram is a text that is empty or
  begins with \<^verbatim>\<open>graph\<close>. When the fence-stripped input is a dict in which the diagram is
  absent or a text, the normalizer either returns such a record or raises
  \<^verbatim>\<open>TypeError\<close> over a tech stack that lists something other than texts.
\<close>

theorem diagram_has_header:
  "(\<forall>analysis_text r. parse_analysis analysis_text = Return r \<longrightarrow>
      (\<exists>m. map_of r ''architecture_mermaid'' = Some (JString m) \<and>
           (m = [] \<or> startswith m ''graph''))) \<and>
   (\<forall>analysis_text data.
      loads (strip_fences analysis_text) = Return (JObject data) \<and>
      (map_of data ''architecture_mermaid'' = None \<or>
       (\<exists>m. map_of data ''architecture_mermaid'' = Some (JString m))) \<longrightarrow>
      (parse_analysis analysis_text = Raise TypeError \<and>
         (\<exists>items. map_of data ''tech_stack'' = Some (JArray items) \<and> texts items = None)) \<or>
      (\<exists>r m. parse_analysis analysis_text = Return r \<and>
         map_of r ''architecture_mermaid'' = Some (JString m) \<and>
         (m = [] \<or> startswith m ''graph'')))"
proof (intro conjI allI impI)
  fix analysis_text r
  assume a: "parse_analysis analysis_text = Return r"
  from parse_analysis_Return[OF a]
  show "\<exists>m. map_of r ''architecture_mermaid'' = Some (JString m) \<and> (m = [] \<or> startswith m ''graph'')"
  proof
    assume "r = parse_failure analysis_text"
    then show ?thesis by (simp add: parse_failure_def)
  next
    assume "\<exists>data. loads (strip_fences analysis_text) = Return (JObject data) \<and> normalize_dict data = Return r"
    then show ?thesis using normalize_diagram by blast
  qed
next
  fix analysis_text data
  assume a: "loads (strip_fences analysis_text) = Return (JObject data) \<and>
      (map_of data ''architecture_mermaid'' = None \<or>
       (\<exists>m. map_of data ''architecture_mermaid'' = Some (JString m)))"
  then have p: "parse_analysis analysis_text = normalize_dict data"
    using parse_analysis_dict[of analysis_text data] by simp
  from a normalize_outcome[of data] normalize_diagram[of data]
  show "(parse_analysis analysis_text = Raise TypeError \<and>
         (\<exists>items. map_of data ''tech_stack'' = Some (JArray items) \<and> texts items = None)) \<or>
      (\<exists>r m. parse_analysis analysis_text = Return r \<and>
         map_of r ''architecture_mermaid'' = Some (JString m) \<and>
         (m = [] \<or> startswith m ''graph''))"
    unfolding p by blast
qed

theorem diagram_has_header_witness:
  \<open>\<exists>r m. parse_analysis ''```\<newline>{"architecture_mermaid": "```mermaid Client-->Server ```"}\<newline>```'' = Return r \<and>
     map_of r ''architecture_mermaid'' = Some (JString m) \<and> startswith m ''graph''\<close>
proof -
  define t where \<open>t = ''```\<newline>{"architecture_mermaid": "```mermaid Client-->Server ```"}\<newline>```''\<close>
  have e: \<open>parse_analysis t = Return
     [(''architecture_mermaid'', JString ''graph TD;\<newline>Client-->Server''),
      (''tech_stack'', JString ''Not available''),
      (''project_type'', JString ''Not available''),
      (''architecture_description'', JString ''Not available''),
      (''what_it_does'', JString ''Not available''),
      (''recruiter_summary'', JString ''Not available'')]\<close>
    unfolding t_def by code_simp
  define R where "R = [(''architecture_mermaid'', JString ''graph TD;\<newline>Client-->Server''),
      (''tech_stack'', JString ''Not available''),
      (''project_type'', JString ''Not available''),
      (''architecture_description'', JString ''Not available''),
      (''what_it_does'', JString ''Not available''),
      (''recruiter_summary'', JString ''Not available'')]"
  have e': "parse_analysis t = Return R" using e unfolding R_def .
  from diagram_has_header e' obtain m where
    m: "map_of R ''architecture_mermaid'' = Some (JString m)" "m = [] \<or> startswith m ''graph''"
    by blast
  from m(1) have "m \<noteq> []" unfolding R_def by auto
  with m(2) have "startswith m ''graph''" by simp
  with e' m(1) show ?thesis unfolding t_def by blast
qed

end
